theory Spec2Isabelle
  imports Complex_Main "HOL-Library.Sublist"
begin

section \<open>Memory visualiser (assignment2.py)\<close>

text \<open>
  The program reads \<^verbatim>\<open>/proc/meminfo\<close> and \<^verbatim>\<open>/proc/<pid>/smaps\<close>, calls \<^verbatim>\<open>pidof\<close>,
  and prints text bar charts. Python's \<^verbatim>\<open>int\<close> is \<^typ>\<open>int\<close> and \<^verbatim>\<open>str\<close> is
  \<^typ>\<open>string\<close> (input is taken to be ASCII). A \<^verbatim>\<open>float\<close> is an IEEE 754 double:
  a sign and a magnitude, an infinity or a NaN; a division and a multiplication
  return the exact result rounded to the nearest double, ties to even, and the
  conversion of an \<^verbatim>\<open>int\<close> rounds in the same way. Strings have no upper bound on
  their length, and \<^verbatim>\<open>int()\<close> accepts any number of digits. A file that opens is
  read to its end.
\<close>

subsection \<open>Errors\<close>

datatype error =
    FileNotFoundError
  | OSError
  | IndexError
  | ValueError
  | TypeError
  | ZeroDivisionError
  | OverflowError

subsection \<open>Text\<close>

text \<open>
  The characters \<^verbatim>\<open>str.split()\<close> and \<^verbatim>\<open>str.strip()\<close> treat as white space, within
  ASCII: tab, line feed, vertical tab, form feed, carriage return, the four separators
  \<^verbatim>\<open>\x1c\<close> to \<^verbatim>\<open>\x1f\<close>, and the space.
\<close>

definition isspace :: "char \<Rightarrow> bool" where
  "isspace c = (let k = (of_char c :: nat) in (9 \<le> k \<and> k \<le> 13) \<or> (28 \<le> k \<and> k \<le> 32))"

text \<open>\<^verbatim>\<open>s.split()\<close>: the maximal runs of characters that are not white space.\<close>

fun split_acc :: "string \<Rightarrow> string \<Rightarrow> string list" where
  "split_acc [] cur = (if cur = [] then [] else [cur])"
| "split_acc (c # cs) cur =
     (if isspace c then (if cur = [] then split_acc cs [] else cur # split_acc cs [])
      else split_acc cs (cur @ [c]))"

definition split :: "string \<Rightarrow> string list" where
  "split s = split_acc s []"

definition strip :: "string \<Rightarrow> string" where
  "strip s = rev (dropWhile isspace (rev (dropWhile isspace s)))"

fun startswith :: "string \<Rightarrow> string \<Rightarrow> bool" where
  "startswith s [] = True"
| "startswith [] (p # ps) = False"
| "startswith (c # cs) (p # ps) = (c = p \<and> startswith cs ps)"

subsection \<open>Integers and text\<close>

definition isdigit :: "char \<Rightarrow> bool" where
  "isdigit c = (48 \<le> (of_char c :: nat) \<and> (of_char c :: nat) \<le> 57)"

definition digit_value :: "char \<Rightarrow> nat" where
  "digit_value c = of_char c - 48"

text \<open>
  The digits of \<^verbatim>\<open>int(s)\<close> after the first one: decimal digits, where a single
  underscore may stand between two digits.
\<close>

fun digits_value :: "string \<Rightarrow> nat \<Rightarrow> nat option" where
  "digits_value [] acc = Some acc"
| "digits_value [c] acc = (if isdigit c then Some (10 * acc + digit_value c) else None)"
| "digits_value (c # d # cs) acc =
     (if isdigit c then digits_value (d # cs) (10 * acc + digit_value c)
      else if c = CHR ''_'' \<and> isdigit d then digits_value cs (10 * acc + digit_value d)
      else None)"

definition unsigned_of_str :: "string \<Rightarrow> nat option" where
  "unsigned_of_str s =
     (case s of
        [] \<Rightarrow> None
      | c # cs \<Rightarrow> if isdigit c then digits_value cs (digit_value c) else None)"

text \<open>
  \<^verbatim>\<open>int(s)\<close> on a string without white space: an optional sign and the digits;
  \<^verbatim>\<open>ValueError\<close> otherwise.
\<close>

definition int_of_str :: "string \<Rightarrow> error + int" where
  "int_of_str s =
     (let r = (case s of
                 [] \<Rightarrow> None
               | c # cs \<Rightarrow>
                   if c = CHR ''-'' then map_option (\<lambda>n. - int n) (unsigned_of_str cs)
                   else if c = CHR ''+'' then map_option int (unsigned_of_str cs)
                   else map_option int (unsigned_of_str s))
      in case r of None \<Rightarrow> Inl ValueError | Some v \<Rightarrow> Inr v)"

text \<open>\<^verbatim>\<open>int(line.split()[1])\<close>: \<^verbatim>\<open>IndexError\<close> when the line has fewer than two fields.\<close>

definition second_field :: "string \<Rightarrow> error + int" where
  "second_field line =
     (case split line of
        a # b # rest \<Rightarrow> int_of_str b
      | _ \<Rightarrow> Inl IndexError)"

definition digit_char :: "nat \<Rightarrow> char" where
  "digit_char d = ''0123456789'' ! d"

fun str_nat :: "nat \<Rightarrow> string" where
  "str_nat n = (if n < 10 then [digit_char n] else str_nat (n div 10) @ [digit_char (n mod 10)])"

declare str_nat.simps [simp del]

text \<open>\<^verbatim>\<open>str(n)\<close>, which is what \<^verbatim>\<open>f"{n}"\<close> prints for an \<^verbatim>\<open>int\<close>.\<close>

definition str_int :: "int \<Rightarrow> string" where
  "str_int n = (if n < 0 then ''-'' @ str_nat (nat (- n)) else str_nat (nat n))"

subsection \<open>Floats\<close>

text \<open>
  \<^verbatim>\<open>float(n)\<close> for an \<^verbatim>\<open>int\<close>: the magnitude is rounded to 53 significant bits,
  ties to even, and the conversion raises \<^verbatim>\<open>OverflowError\<close> when the rounded
  magnitude reaches \<open>2 ^ 1024\<close>.
\<close>

fun bit_length :: "nat \<Rightarrow> nat" where
  "bit_length n = (if n = 0 then 0 else Suc (bit_length (n div 2)))"

declare bit_length.simps [simp del]

definition round_to_double :: "nat \<Rightarrow> nat" where
  "round_to_double a =
     (if a < 2 ^ 53 then a
      else let e = bit_length a - 53; q = a div 2 ^ e; r = a mod 2 ^ e; h = 2 ^ (e - 1)
           in (if h < r \<or> (r = h \<and> odd q) then q + 1 else q) * 2 ^ e)"

definition float_of_int :: "int \<Rightarrow> error + real" where
  "float_of_int n =
     (let m = round_to_double (nat \<bar>n\<bar>)
      in if 2 ^ 1024 \<le> m then Inl OverflowError
         else Inr (if n < 0 then - real m else real m))"

definition round_half_even :: "real \<Rightarrow> int" where
  "round_half_even x =
     (let f = \<lfloor>x\<rfloor>; r = x - of_int f
      in if r < 1 / 2 then f else if 1 / 2 < r then f + 1 else if even f then f else f + 1)"

text \<open>
  \<^verbatim>\<open>f"{x:.df}"\<close> for a float \<open>x\<close>: the decimal expansion of \<open>x\<close> correctly
  rounded to \<open>d\<close> places, ties to even, with a minus sign for a negative \<open>x\<close>.
\<close>

definition format_f :: "nat \<Rightarrow> real \<Rightarrow> string" where
  "format_f d x =
     (let scaled = nat (round_half_even (\<bar>x\<bar> * 10 ^ d));
          ip = str_nat (scaled div 10 ^ d);
          fp = str_nat (scaled mod 10 ^ d)
      in (if x < 0 then ''-'' else '''') @ ip
         @ (if d = 0 then '''' else ''.'' @ replicate (d - length fp) (CHR ''0'') @ fp))"

text \<open>
  A double: \<open>Finite neg x\<close> is the number of magnitude \<open>x \<ge> 0\<close>, negative when
  \<open>neg\<close> holds (so that \<open>Finite True 0\<close> is \<^verbatim>\<open>-0.0\<close>); \<open>Infinity neg\<close> is
  \<^verbatim>\<open>inf\<close> or \<^verbatim>\<open>-inf\<close>.
\<close>

datatype double = Finite bool real | Infinity bool | NaN

definition pow2 :: "int \<Rightarrow> real" where
  "pow2 e = (if 0 \<le> e then 2 ^ nat e else 1 / 2 ^ nat (- e))"

text \<open>The binary exponent of a positive real: \<open>2 ^ ilog2 x \<le> x < 2 ^ (ilog2 x + 1)\<close>.\<close>

definition ilog2 :: "real \<Rightarrow> int" where
  "ilog2 x =
     (if 1 \<le> x then int (bit_length (nat \<lfloor>x\<rfloor>)) - 1
      else - int (bit_length (nat (\<lceil>1 / x\<rceil> - 1))))"

text \<open>
  The doubles around a positive \<open>x\<close> are the multiples of \<open>2 ^ ulp_exp x\<close>: 53
  significant bits, and the fixed spacing \<open>2 ^ - 1074\<close> of the subnormal numbers
  below \<open>2 ^ - 1022\<close>.
\<close>

definition ulp_exp :: "real \<Rightarrow> int" where
  "ulp_exp x = max (ilog2 x) (- 1022) - 52"

text \<open>A magnitude rounded to the nearest such multiple, ties to even.\<close>

definition round_double :: "real \<Rightarrow> real" where
  "round_double x =
     (if x = 0 then 0
      else let u = pow2 (ulp_exp x) in of_int (round_half_even (x / u)) * u)"

text \<open>The double for an exact result: an infinity when the rounded magnitude reaches \<open>2 ^ 1024\<close>.\<close>

definition round_to :: "bool \<Rightarrow> real \<Rightarrow> double" where
  "round_to neg x =
     (let r = round_double x in if 2 ^ 1024 \<le> r then Infinity neg else Finite neg r)"

text \<open>\<^verbatim>\<open>x * y\<close> on two floats.\<close>

fun fmul :: "double \<Rightarrow> double \<Rightarrow> double" where
  "fmul (Finite s x) (Finite t y) = round_to (s \<noteq> t) (x * y)"
| "fmul (Finite s x) (Infinity t) = (if x = 0 then NaN else Infinity (s \<noteq> t))"
| "fmul (Infinity s) (Finite t y) = (if y = 0 then NaN else Infinity (s \<noteq> t))"
| "fmul (Infinity s) (Infinity t) = Infinity (s \<noteq> t)"
| "fmul NaN y = NaN"
| "fmul x NaN = NaN"

text \<open>The float an \<^verbatim>\<open>int\<close> is converted to when it meets a float in an operation.\<close>

definition double_of_int :: "int \<Rightarrow> error + double" where
  "double_of_int n =
     (case float_of_int n of Inl e \<Rightarrow> Inl e | Inr x \<Rightarrow> Inr (Finite (x < 0) \<bar>x\<bar>))"

text \<open>
  \<^verbatim>\<open>int(x)\<close> on a float truncates towards zero; it raises \<^verbatim>\<open>OverflowError\<close> on an
  infinity and \<^verbatim>\<open>ValueError\<close> on a NaN.
\<close>

fun py_int_of_double :: "double \<Rightarrow> error + int" where
  "py_int_of_double (Finite s x) = Inr (if s then - \<lfloor>x\<rfloor> else \<lfloor>x\<rfloor>)"
| "py_int_of_double (Infinity s) = Inl OverflowError"
| "py_int_of_double NaN = Inl ValueError"

text \<open>
  \<^verbatim>\<open>a / b\<close> on two \<^verbatim>\<open>int\<close>s: \<^verbatim>\<open>ZeroDivisionError\<close> for a zero divisor; otherwise
  the quotient rounded to the nearest double, negative (also when it is zero) when
  exactly one of \<open>a < 0\<close> and \<open>b < 0\<close> holds, and \<^verbatim>\<open>OverflowError\<close> when the
  rounded magnitude reaches \<open>2 ^ 1024\<close>.
\<close>

definition py_truediv :: "int \<Rightarrow> int \<Rightarrow> error + double" where
  "py_truediv a b =
     (if b = 0 then Inl ZeroDivisionError
      else let r = round_double (\<bar>real_of_int a\<bar> / \<bar>real_of_int b\<bar>)
           in if 2 ^ 1024 \<le> r then Inl OverflowError
              else Inr (Finite ((a < 0) \<noteq> (b < 0)) r))"

text \<open>\<^verbatim>\<open>f"{x:.df}"\<close> for a double, with its sign, \<^verbatim>\<open>inf\<close> and \<^verbatim>\<open>nan\<close>.\<close>

fun format_double :: "nat \<Rightarrow> double \<Rightarrow> string" where
  "format_double d (Finite s x) = (if s then ''-'' else '''') @ format_f d x"
| "format_double d (Infinity s) = (if s then ''-inf'' else ''inf'')"
| "format_double d NaN = ''nan''"

subsection \<open>Formatter: the bar\<close>

text \<open>\<^verbatim>\<open>c * n\<close> on a one-character string: the empty string when \<open>n\<close> is negative.\<close>

definition py_repeat :: "char \<Rightarrow> int \<Rightarrow> string" where
  "py_repeat c n = replicate (nat n) c"

text \<open>
  \<^verbatim>\<open>
  def percent_to_graph(percentage, bar_length=20):
      filled_length = int(percentage * bar_length)
      bar = '#' * filled_length + ' ' * (bar_length - filled_length)
      return bar
  \<close>
  \<open>percentage\<close> is a float and \<open>bar_length\<close> an \<^verbatim>\<open>int\<close>, as the docstring says:
  the product converts \<open>bar_length\<close> to a float and is rounded.
\<close>

definition percent_to_graph :: "double \<Rightarrow> int \<Rightarrow> error + string" where
  "percent_to_graph percentage bar_length =
     (case double_of_int bar_length of
        Inl e \<Rightarrow> Inl e
      | Inr l \<Rightarrow>
          (case py_int_of_double (fmul percentage l) of
             Inl e \<Rightarrow> Inl e
           | Inr filled_length \<Rightarrow>
               (let bar = py_repeat (CHR ''#'') filled_length
                          @ py_repeat (CHR '' '') (bar_length - filled_length)
                in Inr bar)))"

subsection \<open>Formatter: human-readable sizes\<close>

text \<open>
  \<^verbatim>\<open>
  def bytes_to_human_readable(bytes):
      for unit in ['B', 'KiB', 'MiB', 'GiB', 'TiB']:
          if bytes < 1024.0:
              return f"{bytes:.2f} {unit}"
          bytes /= 1024.0
  \<close>
  The variable holds the \<^verbatim>\<open>int\<close> argument in the first round and a float afterwards.
  Comparing an \<^verbatim>\<open>int\<close> with a float is exact; formatting it with \<^verbatim>\<open>.2f\<close> and dividing
  it by a float both convert it to a float first. Dividing a float of magnitude at
  least 1024 by 1024 is exact. Falling out of the loop returns \<^verbatim>\<open>None\<close>.
\<close>

datatype number = PyInt int | PyFloat real

fun number_value :: "number \<Rightarrow> real" where
  "number_value (PyInt n) = of_int n"
| "number_value (PyFloat x) = x"

fun as_float :: "number \<Rightarrow> error + real" where
  "as_float (PyInt n) = float_of_int n"
| "as_float (PyFloat x) = Inr x"

fun bytes_loop :: "string list \<Rightarrow> number \<Rightarrow> error + string option" where
  "bytes_loop [] b = Inr None"
| "bytes_loop (unit # units) b =
     (if number_value b < 1024 then
        (case as_float b of
           Inl e \<Rightarrow> Inl e
         | Inr x \<Rightarrow> Inr (Some (format_f 2 x @ '' '' @ unit)))
      else
        (case as_float b of
           Inl e \<Rightarrow> Inl e
         | Inr x \<Rightarrow> bytes_loop units (PyFloat (x / 1024))))"

definition units :: "string list" where
  "units = [''B'', ''KiB'', ''MiB'', ''GiB'', ''TiB'']"

definition bytes_to_human_readable :: "int \<Rightarrow> error + string option" where
  "bytes_to_human_readable n = bytes_loop units (PyInt n)"

subsection \<open>The outside world and the program's effects\<close>

text \<open>
  What the program reads is a parameter. Each access to the outside is stamped with
  the number of accesses made before it, so that a source may change or vanish
  between two reads. \<open>files t path\<close> is \<^verbatim>\<open>open(path)\<close> followed by reading all the
  lines (each with its line terminator), or the error \<^verbatim>\<open>open\<close> raises;
  \<open>popen_read t cmd\<close> is \<^verbatim>\<open>os.popen(cmd).read()\<close>, or the text of the exception.
\<close>

record world =
  files :: "nat \<Rightarrow> string \<Rightarrow> error + string list"
  popen_read :: "nat \<Rightarrow> string \<Rightarrow> string + string"

datatype event = Open string | Popen string

text \<open>The effects of a run: the accesses made, in order, and the lines printed.\<close>

record state =
  io_log :: "event list"
  stdout :: "string list"

definition log_event :: "event \<Rightarrow> state \<Rightarrow> state" where
  "log_event ev s = s\<lparr>io_log := io_log s @ [ev]\<rparr>"

definition print :: "string \<Rightarrow> state \<Rightarrow> state" where
  "print line s = s\<lparr>stdout := stdout s @ [line]\<rparr>"

definition open_file :: "world \<Rightarrow> string \<Rightarrow> state \<Rightarrow> (error + string list) \<times> state" where
  "open_file w path s = (files w (length (io_log s)) path, log_event (Open path) s)"

subsection \<open>MemInfo reader\<close>

text \<open>
  \<^verbatim>\<open>
  def get_sys_mem():
      with open('/proc/meminfo', 'r') as f:
          for line in f:
              if line.startswith("MemTotal"):
                  total_mem = int(line.split()[1])
                  return total_mem
  \<close>
  Without a \<^verbatim>\<open>MemTotal\<close> line the function returns \<^verbatim>\<open>None\<close>.
\<close>

fun get_sys_mem_lines :: "string list \<Rightarrow> error + int option" where
  "get_sys_mem_lines [] = Inr None"
| "get_sys_mem_lines (line # ls) =
     (if startswith line ''MemTotal'' then
        (case second_field line of Inl e \<Rightarrow> Inl e | Inr total_mem \<Rightarrow> Inr (Some total_mem))
      else get_sys_mem_lines ls)"

definition get_sys_mem :: "world \<Rightarrow> state \<Rightarrow> (error + int option) \<times> state" where
  "get_sys_mem w s =
     (case open_file w ''/proc/meminfo'' s of
        (Inl e, s') \<Rightarrow> (Inl e, s')
      | (Inr f, s') \<Rightarrow> (get_sys_mem_lines f, s'))"

text \<open>
  \<^verbatim>\<open>
  def get_avail_mem():
      with open('/proc/meminfo', 'r') as f:
          mem_free = 0
          swap_free = 0
          mem_available = 0
          for line in f:
              if line.startswith("MemFree"):
                  mem_free = int(line.split()[1])
              elif line.startswith("SwapFree"):
                  swap_free = int(line.split()[1])
              elif line.startswith("MemAvailable"):
                  mem_available = int(line.split()[1])
          if mem_available == 0:
              mem_available = mem_free + swap_free
          return mem_available
  \<close>
\<close>

fun avail_loop :: "string list \<Rightarrow> int \<Rightarrow> int \<Rightarrow> int \<Rightarrow> error + int \<times> int \<times> int" where
  "avail_loop [] mem_free swap_free mem_available = Inr (mem_free, swap_free, mem_available)"
| "avail_loop (line # ls) mem_free swap_free mem_available =
     (if startswith line ''MemFree'' then
        (case second_field line of
           Inl e \<Rightarrow> Inl e
         | Inr v \<Rightarrow> avail_loop ls v swap_free mem_available)
      else if startswith line ''SwapFree'' then
        (case second_field line of
           Inl e \<Rightarrow> Inl e
         | Inr v \<Rightarrow> avail_loop ls mem_free v mem_available)
      else if startswith line ''MemAvailable'' then
        (case second_field line of
           Inl e \<Rightarrow> Inl e
         | Inr v \<Rightarrow> avail_loop ls mem_free swap_free v)
      else avail_loop ls mem_free swap_free mem_available)"

definition get_avail_mem_lines :: "string list \<Rightarrow> error + int" where
  "get_avail_mem_lines f =
     (case avail_loop f 0 0 0 of
        Inl e \<Rightarrow> Inl e
      | Inr (mem_free, swap_free, mem_available) \<Rightarrow>
          Inr (if mem_available = 0 then mem_free + swap_free else mem_available))"

definition get_avail_mem :: "world \<Rightarrow> state \<Rightarrow> (error + int) \<times> state" where
  "get_avail_mem w s =
     (case open_file w ''/proc/meminfo'' s of
        (Inl e, s') \<Rightarrow> (Inl e, s')
      | (Inr f, s') \<Rightarrow> (get_avail_mem_lines f, s'))"

subsection \<open>Process resolver\<close>

text \<open>
  \<^verbatim>\<open>
  def pids_of_prog(program):
      pids = []
      try:
          pid_list = os.popen(f"pidof {program}").read().strip()
          pids = pid_list.split() if pid_list else []
      except Exception as e:
          print(f"Error finding processes for {program}: {e}")
      return pids
  \<close>
\<close>

definition pids_of_prog :: "world \<Rightarrow> string \<Rightarrow> state \<Rightarrow> string list \<times> state" where
  "pids_of_prog w program s =
     (let cmd = ''pidof '' @ program;
          s' = log_event (Popen cmd) s
      in case popen_read w (length (io_log s)) cmd of
           Inl e \<Rightarrow> ([], print (''Error finding processes for '' @ program @ '': '' @ e) s')
         | Inr out \<Rightarrow>
             (let pid_list = strip out
              in (if pid_list \<noteq> [] then split pid_list else [], s')))"

subsection \<open>Process memory reader\<close>

text \<open>
  \<^verbatim>\<open>
  def rss_mem_of_pid(pid):
      rss_total = 0
      try:
          with open(f"/proc/{pid}/smaps", "r") as f:
              for line in f:
                  if line.startswith("Rss"):
                      rss_total += int(line.split()[1])
      except FileNotFoundError:
          print(f"Process {pid} not found.")
      return rss_total
  \<close>
  Only \<^verbatim>\<open>FileNotFoundError\<close> is caught; any other error leaves the function.
\<close>

definition smaps_path :: "string \<Rightarrow> string" where
  "smaps_path pid = ''/proc/'' @ pid @ ''/smaps''"

fun rss_lines :: "string list \<Rightarrow> int \<Rightarrow> error + int" where
  "rss_lines [] rss_total = Inr rss_total"
| "rss_lines (line # ls) rss_total =
     (if startswith line ''Rss'' then
        (case second_field line of
           Inl e \<Rightarrow> Inl e
         | Inr v \<Rightarrow> rss_lines ls (rss_total + v))
      else rss_lines ls rss_total)"

definition rss_mem_of_pid :: "world \<Rightarrow> string \<Rightarrow> state \<Rightarrow> (error + int) \<times> state" where
  "rss_mem_of_pid w pid s =
     (case open_file w (smaps_path pid) s of
        (Inl e, s') \<Rightarrow>
          if e = FileNotFoundError then (Inr 0, print (''Process '' @ pid @ '' not found.'') s')
          else (Inl e, s')
      | (Inr f, s') \<Rightarrow> (rss_lines f 0, s'))"

subsection \<open>Report driver\<close>

text \<open>The parsed command line: \<^verbatim>\<open>program\<close>, \<^verbatim>\<open>-H\<close> and \<^verbatim>\<open>-l\<close> (default 20).\<close>

record args =
  program :: "string option"
  human_readable :: bool
  length_arg :: int

text \<open>\<^verbatim>\<open>if args.program\<close>: neither \<^verbatim>\<open>None\<close> nor the empty string.\<close>

definition given_program :: "args \<Rightarrow> string option" where
  "given_program a = (case program a of None \<Rightarrow> None | Some p \<Rightarrow> if p = [] then None else Some p)"

text \<open>What an f-string prints for the result of \<open>bytes_to_human_readable\<close>.\<close>

definition str_opt :: "string option \<Rightarrow> string" where
  "str_opt r = (case r of None \<Rightarrow> ''None'' | Some t \<Rightarrow> t)"

text \<open>
  The size text, as each of the three places of \<^verbatim>\<open>main\<close> computes it:
  \<^verbatim>\<open>bytes_to_human_readable(kib * 1024)\<close> with \<^verbatim>\<open>-H\<close>, \<^verbatim>\<open>f"{kib} KiB"\<close> without.
\<close>

definition size_text :: "bool \<Rightarrow> int \<Rightarrow> error + string" where
  "size_text hr kib =
     (if hr then
        (case bytes_to_human_readable (kib * 1024) of
           Inl e \<Rightarrow> Inl e
         | Inr r \<Rightarrow> Inr (str_opt r))
      else Inr (str_int kib @ '' KiB''))"

text \<open>The first loop of \<^verbatim>\<open>main\<close> (lines 181 to 184): the sum over the processes.\<close>

fun sum_rss :: "world \<Rightarrow> string list \<Rightarrow> int \<Rightarrow> state \<Rightarrow> (error + int) \<times> state" where
  "sum_rss w [] total_prog_rss s = (Inr total_prog_rss, s)"
| "sum_rss w (pid # pids) total_prog_rss s =
     (case rss_mem_of_pid w pid s of
        (Inl e, s') \<Rightarrow> (Inl e, s')
      | (Inr pid_rss, s') \<Rightarrow> sum_rss w pids (total_prog_rss + pid_rss) s')"

text \<open>The second loop (lines 201 to 214): one line for each process, read again.\<close>

fun report_pids ::
  "world \<Rightarrow> args \<Rightarrow> int \<Rightarrow> string \<Rightarrow> string list \<Rightarrow> state \<Rightarrow> (error + unit) \<times> state" where
  "report_pids w a total_mem total_mem_hr [] s = (Inr (), s)"
| "report_pids w a total_mem total_mem_hr (pid # pids) s =
     (case rss_mem_of_pid w pid s of
        (Inl e, s') \<Rightarrow> (Inl e, s')
      | (Inr pid_rss, s') \<Rightarrow>
          (case size_text (human_readable a) pid_rss of
             Inl e \<Rightarrow> (Inl e, s')
           | Inr pid_rss_hr \<Rightarrow>
               (case py_truediv pid_rss total_mem of
                  Inl e \<Rightarrow> (Inl e, s')
                | Inr pid_percent_used \<Rightarrow>
                    (case percent_to_graph pid_percent_used (length_arg a) of
                       Inl e \<Rightarrow> (Inl e, s')
                     | Inr bar \<Rightarrow>
                         report_pids w a total_mem total_mem_hr pids
                           (print (pid @ ''         ['' @ bar @ ''] '' @ pid_rss_hr
                                   @ ''/'' @ total_mem_hr) s')))))"

text \<open>Lines 176 to 214 of \<^verbatim>\<open>main\<close>: the report for a program.\<close>

definition main_program ::
  "world \<Rightarrow> args \<Rightarrow> string \<Rightarrow> int \<Rightarrow> string \<Rightarrow> state \<Rightarrow> (error + unit) \<times> state" where
  "main_program w a prog total_mem total_mem_hr s =
     (case pids_of_prog w prog s of
        (pids, s1) \<Rightarrow>
          if pids = [] then (Inr (), print (prog @ '' not found.'') s1)
          else
            (case sum_rss w pids 0 s1 of
               (Inl e, s2) \<Rightarrow> (Inl e, s2)
             | (Inr total_prog_rss, s2) \<Rightarrow>
                 (case size_text (human_readable a) total_prog_rss of
                    Inl e \<Rightarrow> (Inl e, s2)
                  | Inr total_prog_rss_hr \<Rightarrow>
                      (case py_truediv total_prog_rss total_mem of
                         Inl e \<Rightarrow> (Inl e, s2)
                       | Inr prog_percent_used \<Rightarrow>
                           (case percent_to_graph prog_percent_used (length_arg a) of
                              Inl e \<Rightarrow> (Inl e, s2)
                            | Inr bar \<Rightarrow>
                                report_pids w a total_mem total_mem_hr pids
                                  (print (prog @ ''        ['' @ bar @ ''] ''
                                          @ total_prog_rss_hr @ ''/'' @ total_mem_hr) s2))))))"

text \<open>
  Lines 155 to 172 of \<^verbatim>\<open>main\<close>: the memory snapshot and its texts. Subtracting from
  the \<^verbatim>\<open>None\<close> that \<open>get_sys_mem\<close> returns without a \<^verbatim>\<open>MemTotal\<close> line raises
  \<^verbatim>\<open>TypeError\<close>.
\<close>

record snapshot =
  snap_total_mem :: int
  snap_used_mem :: int
  snap_percent_used :: double
  snap_total_mem_hr :: string
  snap_used_mem_hr :: string
  snap_bar_graph :: string

definition main_snapshot :: "world \<Rightarrow> args \<Rightarrow> state \<Rightarrow> (error + snapshot) \<times> state" where
  "main_snapshot w a s =
     (case get_sys_mem w s of
        (Inl e, s1) \<Rightarrow> (Inl e, s1)
      | (Inr total_mem_opt, s1) \<Rightarrow>
          (case get_avail_mem w s1 of
             (Inl e, s2) \<Rightarrow> (Inl e, s2)
           | (Inr avail_mem, s2) \<Rightarrow>
               (case total_mem_opt of
                  None \<Rightarrow> (Inl TypeError, s2)
                | Some total_mem \<Rightarrow>
                    (case py_truediv (total_mem - avail_mem) total_mem of
                       Inl e \<Rightarrow> (Inl e, s2)
                     | Inr percent_used \<Rightarrow>
                         (case size_text (human_readable a) total_mem of
                            Inl e \<Rightarrow> (Inl e, s2)
                          | Inr total_mem_hr \<Rightarrow>
                              (case size_text (human_readable a) (total_mem - avail_mem) of
                                 Inl e \<Rightarrow> (Inl e, s2)
                               | Inr used_mem_hr \<Rightarrow>
                                   (case size_text (human_readable a) avail_mem of
                                      Inl e \<Rightarrow> (Inl e, s2)
                                    | Inr avail_mem_hr \<Rightarrow>
                                        (case percent_to_graph percent_used (length_arg a) of
                                           Inl e \<Rightarrow> (Inl e, s2)
                                         | Inr bar_graph \<Rightarrow>
                                             (Inr \<lparr>snap_total_mem = total_mem,
                                                   snap_used_mem = total_mem - avail_mem,
                                                   snap_percent_used = percent_used,
                                                   snap_total_mem_hr = total_mem_hr,
                                                   snap_used_mem_hr = used_mem_hr,
                                                   snap_bar_graph = bar_graph\<rparr>,
                                              s2)))))))))"

text \<open>
  \<^verbatim>\<open>main\<close>: the snapshot, then one of the two reports. In \<^verbatim>\<open>percent_used * 100\<close>
  the \<^verbatim>\<open>int\<close> 100 becomes the float 100.0 and the product is rounded.
\<close>

definition main :: "world \<Rightarrow> args \<Rightarrow> state \<Rightarrow> (error + unit) \<times> state" where
  "main w a s =
     (case main_snapshot w a s of
        (Inl e, s') \<Rightarrow> (Inl e, s')
      | (Inr m, s') \<Rightarrow>
          (case given_program a of
             Some prog \<Rightarrow> main_program w a prog (snap_total_mem m) (snap_total_mem_hr m) s'
           | None \<Rightarrow>
               (Inr (), print (''Memory         ['' @ snap_bar_graph m @ '' | ''
                               @ format_double 0 (fmul (snap_percent_used m) (Finite False 100))
                               @ ''%] '' @ snap_used_mem_hr m @ ''/'' @ snap_total_mem_hr m) s')))"

subsection \<open>Fields of a source, for the statements below\<close>

text \<open>
  The lines of a source that begin with a label, and the number the last of them
  carries (the value a reader that scans the whole source ends up with).
\<close>

definition field_lines :: "string \<Rightarrow> string list \<Rightarrow> string list" where
  "field_lines label f = filter (\<lambda>line. startswith line label) f"

definition field_value :: "string \<Rightarrow> string list \<Rightarrow> int option" where
  "field_value label f =
     (case rev (field_lines label f) of
        [] \<Rightarrow> None
      | line # earlier \<Rightarrow> (case second_field line of Inl e \<Rightarrow> None | Inr v \<Rightarrow> Some v))"

text \<open>The number the first line with the label carries.\<close>

definition first_field_value :: "string \<Rightarrow> string list \<Rightarrow> int option" where
  "first_field_value label f =
     (case field_lines label f of
        [] \<Rightarrow> None
      | line # later \<Rightarrow> (case second_field line of Inl e \<Rightarrow> None | Inr v \<Rightarrow> Some v))"

definition field_values :: "string \<Rightarrow> string list \<Rightarrow> int list" where
  "field_values label f =
     map (\<lambda>line. case second_field line of Inl e \<Rightarrow> 0 | Inr v \<Rightarrow> v) (field_lines label f)"

text \<open>Every line with the label carries a number in its second field.\<close>

definition numeric_field :: "string \<Rightarrow> string list \<Rightarrow> bool" where
  "numeric_field label f = list_all (\<lambda>line. \<not> isl (second_field line)) (field_lines label f)"

text \<open>The value a variable holds after the scan: its initial value unless a line set it.\<close>

definition value_or :: "int \<Rightarrow> int option \<Rightarrow> int" where
  "value_or d r = (case r of None \<Rightarrow> d | Some v \<Rightarrow> v)"

text \<open>
  The accesses of a complete run, in order: the memory-info source twice, then, for a
  program, the \<^verbatim>\<open>pidof\<close> call and the memory map of each process it names, once
  for the sum and once for the report.
\<close>

definition expected_accesses :: "world \<Rightarrow> args \<Rightarrow> state \<Rightarrow> event list" where
  "expected_accesses w a s =
     [Open ''/proc/meminfo'', Open ''/proc/meminfo'']
     @ (case given_program a of
          None \<Rightarrow> []
        | Some prog \<Rightarrow>
            (let pids = fst (pids_of_prog w prog
                               (log_event (Open ''/proc/meminfo'')
                                  (log_event (Open ''/proc/meminfo'') s)))
             in Popen (''pidof '' @ prog)
                # map (\<lambda>pid. Open (smaps_path pid)) pids
                @ map (\<lambda>pid. Open (smaps_path pid)) pids))"

text \<open>The bar of the specification: so many fill characters, then spaces up to the length.\<close>

definition spec_bar :: "int \<Rightarrow> int \<Rightarrow> string" where
  "spec_bar bar_length filled = replicate (nat filled) (CHR ''#'')
                                @ replicate (nat (bar_length - filled)) (CHR '' '')"

subsection \<open>Example sources\<close>

text \<open>A world that answers every access in the same way, and the state a run starts in.\<close>

definition fixed_world ::
  "(string \<Rightarrow> error + string list) \<Rightarrow> (string \<Rightarrow> string + string) \<Rightarrow> world" where
  "fixed_world fs cmds = \<lparr>files = (\<lambda>t. fs), popen_read = (\<lambda>t. cmds)\<rparr>"

definition start :: state where
  "start = \<lparr>io_log = [], stdout = []\<rparr>"

definition meminfo_only :: "string list \<Rightarrow> string \<Rightarrow> error + string list" where
  "meminfo_only f path = (if path = ''/proc/meminfo'' then Inr f else Inl FileNotFoundError)"

definition no_output :: "string \<Rightarrow> string + string" where
  "no_output cmd = Inr []"

text \<open>
  A machine with 1000 kB of memory, 250 kB of it available, where \<^verbatim>\<open>pidof demo\<close> names
  the processes 101 and 202; process 101 has two mapped regions, process 202 is gone.
\<close>

definition demo_files :: "string \<Rightarrow> error + string list" where
  "demo_files path =
     (if path = ''/proc/meminfo'' then
        Inr [''MemTotal:        1000 kB\<newline>'',
             ''MemFree:          100 kB\<newline>'',
             ''MemAvailable:     250 kB\<newline>'',
             ''SwapFree:          50 kB\<newline>'']
      else if path = ''/proc/101/smaps'' then
        Inr [''55d0c0a00000-55d0c0a21000 r--p 00000000 08:01 131 /usr/bin/demo\<newline>'',
             ''Size:                132 kB\<newline>'',
             ''Rss:                 100 kB\<newline>'',
             ''Pss:                  90 kB\<newline>'',
             ''7ffd1c000000-7ffd1c021000 rw-p 00000000 00:00 0 [stack]\<newline>'',
             ''Size:                260 kB\<newline>'',
             ''Rss:                 250 kB\<newline>'']
      else Inl FileNotFoundError)"

definition demo_pidof :: "string \<Rightarrow> string + string" where
  "demo_pidof cmd = (if cmd = ''pidof demo'' then Inr ''101 202\<newline>'' else Inr [])"

definition demo_world :: world where
  "demo_world = fixed_world demo_files demo_pidof"

section \<open>Properties of the floats\<close>

subsection \<open>Conversion of an integer to a float\<close>

lemma float_of_int_small: "\<bar>n\<bar> < 2 ^ 53 \<Longrightarrow> float_of_int n = Inr (of_int n)"
  by (auto simp add: float_of_int_def round_to_double_def Let_def)

lemma bit_length_bounds: "0 < a \<Longrightarrow> 2 ^ (bit_length a - 1) \<le> a \<and> a < 2 ^ bit_length a"
proof (induction a rule: bit_length.induct)
  case (1 n)
  show ?case
  proof (cases "n div 2 = 0")
    case True
    with 1(2) have "n = 1" by (simp add: div_eq_0_iff) 
    then show ?thesis by (simp add: bit_length.simps)
  next
    case False
    then have pos: "0 < n div 2" by simp
    from 1(1) [OF _ pos] 1(2)
    have ih: "2 ^ (bit_length (n div 2) - 1) \<le> n div 2" "n div 2 < 2 ^ bit_length (n div 2)"
      by auto
    have bl: "bit_length n = Suc (bit_length (n div 2))"
      using 1(2) by (subst bit_length.simps) simp
    have blpos: "0 < bit_length (n div 2)"
      using pos by (subst bit_length.simps) simp
    then obtain k where k: "bit_length (n div 2) = Suc k" by (cases "bit_length (n div 2)") auto
    show ?thesis using ih unfolding bl k by auto
  qed
qed

lemma round_step:
  fixes q r h :: nat
  assumes q: "q < 2 ^ 53" and r: "r < 2 * h" and h: "0 < h"
  defines "res \<equiv> (if h < r \<or> (r = h \<and> odd q) then q + 1 else q) * (2 * h)"
  shows "res \<le> 2 ^ 53 * (2 * h)"
    and "q * (2 * h) \<le> res"
    and "2 ^ 53 * (2 * h) \<le> res \<longleftrightarrow> 2 ^ 53 * (2 * h) - h \<le> q * (2 * h) + r"
proof -
  let ?m = "if h < r \<or> (r = h \<and> odd q) then q + 1 else q"
  have m_le: "?m \<le> 2 ^ 53" using q by auto
  have m_ge: "q \<le> ?m" by auto
  show "res \<le> 2 ^ 53 * (2 * h)"
    unfolding res_def using m_le by (rule mult_le_mono1)
  show "q * (2 * h) \<le> res"
    unfolding res_def using m_ge by (rule mult_le_mono1)
  show "2 ^ 53 * (2 * h) \<le> res \<longleftrightarrow> 2 ^ 53 * (2 * h) - h \<le> q * (2 * h) + r"
  proof (cases "q = 2 ^ 53 - 1")
    case True
    have odd: "odd q" unfolding True by simp
    show ?thesis
    proof (cases "h \<le> r")
      case True
      then have "?m = q + 1" using odd by auto
      then have "res = 2 ^ 53 * (2 * h)" unfolding res_def using \<open>q = 2 ^ 53 - 1\<close> by simp
      moreover have "2 ^ 53 * (2 * h) - h \<le> q * (2 * h) + r"
        using True unfolding \<open>q = 2 ^ 53 - 1\<close> by simp
      ultimately show ?thesis by simp
    next
      case False
      then have "?m = q" by auto
      then have "res = (2 ^ 53 - 1) * (2 * h)" unfolding res_def using \<open>q = 2 ^ 53 - 1\<close> by simp
      then have "res < 2 ^ 53 * (2 * h)" using h by simp
      moreover have "q * (2 * h) + r < 2 ^ 53 * (2 * h) - h"
        using False h unfolding \<open>q = 2 ^ 53 - 1\<close> by simp
      ultimately show ?thesis by simp
    qed
  next
    case False
    then have q2: "q + 1 \<le> 2 ^ 53 - 1" using q by simp
    have "?m \<le> q + 1" by auto
    then have "?m \<le> 2 ^ 53 - 1" using q2 by linarith
    then have "res \<le> (2 ^ 53 - 1) * (2 * h)" unfolding res_def by (rule mult_le_mono1)
    then have a: "res < 2 ^ 53 * (2 * h)" using h by simp
    have "(q + 1) * (2 * h) \<le> (2 ^ 53 - 1) * (2 * h)" using q2 by (rule mult_le_mono1)
    moreover have "(q + 1) * (2 * h) = q * (2 * h) + 2 * h" by (simp add: algebra_simps)
    ultimately have "q * (2 * h) + r < (2 ^ 53 - 1) * (2 * h)" using r by linarith
    then have b: "q * (2 * h) + r < 2 ^ 53 * (2 * h) - h" using h by simp
    from a b show ?thesis by simp
  qed
qed

lemma round_to_double_big:
  assumes "2 ^ 53 \<le> a"
  defines "b \<equiv> bit_length a"
  shows "54 \<le> b"
    and "2 ^ (b - 1) \<le> round_to_double a"
    and "round_to_double a \<le> 2 ^ b"
    and "2 ^ b \<le> round_to_double a \<longleftrightarrow> 2 ^ b - 2 ^ (b - 54) \<le> a"
proof -
  have pos: "0 < a" using assms(1) by (simp add: less_le_trans [of 0 "2 ^ 53"])
  from bit_length_bounds [OF pos]
  have lo: "2 ^ (b - 1) \<le> a" and hi: "a < 2 ^ b" unfolding b_def by auto
  have "(2::nat) ^ 53 < 2 ^ b" using assms(1) hi by linarith
  then have "53 < b" by (simp only: power_strict_increasing_iff)
  then show b54: "54 \<le> b" by simp
  define e where "e = b - 53"
  define h :: nat where "h = 2 ^ (e - 1)"
  define q where "q = a div 2 ^ e"
  define r where "r = a mod 2 ^ e"
  have e1: "1 \<le> e" using b54 by (simp add: e_def)
  have pe: "(2::nat) ^ e = 2 * h" unfolding h_def using e1 by (cases e) auto
  have hpos: "0 < h" by (simp add: h_def)
  have pb: "(2::nat) ^ b = 2 ^ 53 * (2 * h)"
    unfolding pe [symmetric] power_add [symmetric] e_def using b54 by simp
  have pb1: "(2::nat) ^ (b - 1) = 2 ^ 52 * (2 * h)"
    unfolding pe [symmetric] power_add [symmetric] e_def using b54 by simp
  have pb54: "(2::nat) ^ (b - 54) = h"
    unfolding h_def e_def by simp
  have a_eq: "a = q * (2 * h) + r" unfolding q_def r_def pe [symmetric] by (rule div_mult_mod_eq [symmetric])
  have r_lt: "r < 2 * h" unfolding r_def pe [symmetric] by simp
  have q_lt: "q < 2 ^ 53"
  proof -
    have "a < 2 ^ 53 * (2 * h)" using hi pb by simp
    then have "a div (2 * h) < 2 ^ 53" using hpos by (simp add: less_mult_imp_div_less mult.commute)
    then show ?thesis unfolding q_def pe .
  qed
  have q_ge: "2 ^ 52 \<le> q"
  proof -
    have "2 ^ 52 * (2 * h) \<le> a" using lo pb1 by simp
    then have "(2 ^ 52 * (2 * h)) div (2 * h) \<le> a div (2 * h)" by (rule div_le_mono)
    then show ?thesis unfolding q_def pe using hpos by simp
  qed
  have rtd: "round_to_double a = (if h < r \<or> (r = h \<and> odd q) then q + 1 else q) * (2 * h)"
    using assms(1) pe
    unfolding round_to_double_def Let_def q_def r_def h_def e_def b_def
    by simp
  note st = round_step [OF q_lt r_lt hpos, folded rtd]
  show "round_to_double a \<le> 2 ^ b" using st(1) pb by simp
  have "2 ^ 52 * (2 * h) \<le> q * (2 * h)" using q_ge by (rule mult_le_mono1)
  then have "2 ^ 52 * (2 * h) \<le> round_to_double a" using st(2) by (rule le_trans)
  then show "2 ^ (b - 1) \<le> round_to_double a" unfolding pb1 .
  show "2 ^ b \<le> round_to_double a \<longleftrightarrow> 2 ^ b - 2 ^ (b - 54) \<le> a"
    unfolding pb pb54 using st(3) a_eq by simp
qed

lemma round_to_double_overflow:
  "2 ^ 1024 \<le> round_to_double a \<longleftrightarrow> 2 ^ 1024 - 2 ^ 970 \<le> a"
proof (cases "a < 2 ^ 53")
  case True
  then have "round_to_double a = a" by (simp add: round_to_double_def)
  moreover have "a < 2 ^ 1024 - 2 ^ 970" using True by simp
  ultimately show ?thesis by simp
next
  case False
  then have big: "2 ^ 53 \<le> a" by simp
  define b where "b = bit_length a"
  note f = round_to_double_big [OF big, folded b_def]
  have pos: "0 < a" using big by (simp add: less_le_trans [of 0 "2 ^ 53"])
  from bit_length_bounds [OF pos]
  have lo: "2 ^ (b - 1) \<le> a" and hi: "a < 2 ^ b" unfolding b_def by auto
  consider "b < 1024" | "b = 1024" | "1024 < b" by linarith
  then show ?thesis
  proof cases
    case 1
    then have "(2::nat) ^ b \<le> 2 ^ 1023" by (intro power_increasing) auto
    then have "round_to_double a \<le> 2 ^ 1023" "a < 2 ^ 1023" using f(3) hi by linarith+
    then have "\<not> 2 ^ 1024 \<le> round_to_double a" "\<not> 2 ^ 1024 - 2 ^ 970 \<le> a" by simp_all
    then show ?thesis by simp
  next
    case 2
    show ?thesis using f(4) unfolding 2 by simp
  next
    case 3
    then have "(2::nat) ^ 1024 \<le> 2 ^ (b - 1)" by (intro power_increasing) auto
    then have "2 ^ 1024 \<le> round_to_double a" "2 ^ 1024 \<le> a" using f(2) lo by linarith+
    then show ?thesis by simp
  qed
qed

lemma round_to_double_ge:
  assumes "2 ^ 50 \<le> a"
  shows "2 ^ 50 \<le> round_to_double a"
proof (cases "a < 2 ^ 53")
  case True
  then show ?thesis using assms by (simp add: round_to_double_def)
next
  case False
  then have big: "2 ^ 53 \<le> a" by simp
  from round_to_double_big(1,2) [OF big]
  have "54 \<le> bit_length a" "2 ^ (bit_length a - 1) \<le> round_to_double a" by auto
  moreover from this(1) have "(2::nat) ^ 50 \<le> 2 ^ (bit_length a - 1)"
    by (intro power_increasing) auto
  ultimately show ?thesis by linarith
qed





subsection \<open>Powers of two\<close>

lemma pow2_powi: "pow2 e = 2 powi e"
  by (simp add: pow2_def power_int_def field_simps)

lemma pow2_pos [simp]: "0 < pow2 e"
  by (simp add: pow2_powi)

lemma pow2_nonzero [simp]: "pow2 e \<noteq> 0"
  using pow2_pos [of e] by linarith

lemma pow2_nonneg [simp]: "0 \<le> pow2 e"
  using pow2_pos [of e] by linarith








subsection \<open>The binary exponent\<close>

lemma bit_length_unique:
  assumes "2 ^ k \<le> n" "n < 2 ^ Suc k"
  shows "bit_length n = Suc k"
proof -
  have pos: "0 < n" using assms(1) by (simp add: less_le_trans [of 0 "2 ^ k"])
  from bit_length_bounds [OF pos]
  have lo: "2 ^ (bit_length n - 1) \<le> n" and hi: "n < 2 ^ bit_length n" by auto
  have "(2::nat) ^ k < 2 ^ bit_length n" using assms(1) hi by linarith
  then have a: "k < bit_length n" by (simp only: power_strict_increasing_iff)
  have "(2::nat) ^ (bit_length n - 1) < 2 ^ Suc k" using assms(2) lo by linarith
  then have "bit_length n - 1 < Suc k" by (simp only: power_strict_increasing_iff)
  with a show ?thesis by linarith
qed




subsection \<open>Rounding to the nearest integer\<close>

lemma round_half_even_int [simp]: "round_half_even (of_int k) = k"
  by (simp add: round_half_even_def)



subsection \<open>Rounding to the nearest double\<close>






subsection \<open>Integers that are doubles\<close>







subsection \<open>Evaluation\<close>

lemmas fl_ev = round_double_def ulp_exp_def ilog2_def pow2_def round_half_even_def round_to_def
  bit_length.simps Let_def

section \<open>Properties of the bar\<close>









text \<open>
  Beyond \<open>2 ^ 53\<close> the conversion of the length rounds: \<open>2 ^ 53 + 3\<close> becomes
  \<open>2 ^ 53 + 4\<close>, and a full bar has one character more than its length.
\<close>

lemma percent_to_graph_rounded_length:
  "percent_to_graph (Finite False 1) (2 ^ 53 + 3) = Inr (spec_bar (2 ^ 53 + 3) (2 ^ 53 + 4))"
  by (simp add: percent_to_graph_def double_of_int_def float_of_int_def round_to_double_def
      py_repeat_def spec_bar_def fl_ev)

section \<open>Properties of the human-readable sizes\<close>

subsection \<open>The unit loop\<close>

lemma bytes_loop_exhausted:
  "1024 ^ length us \<le> x \<Longrightarrow> bytes_loop us (PyFloat x) = Inr None"
proof (induction us arbitrary: x)
  case Nil
  show ?case by simp
next
  case (Cons u us)
  from Cons.prems have x: "1024 * 1024 ^ length us \<le> x" by simp
  have "(1::real) \<le> 1024 ^ length us" by simp
  then have "(1024::real) * 1 \<le> 1024 * 1024 ^ length us" by (intro mult_left_mono) auto
  with x have "\<not> x < 1024" by linarith
  moreover from x have "1024 ^ length us \<le> x / 1024" by simp
  ultimately show ?case using Cons.IH by simp
qed

lemma bytes_loop_unit:
  assumes "k < length us" "k = 0 \<or> 1024 ^ k \<le> x" "x < 1024 ^ (k + 1)"
  shows "bytes_loop us (PyFloat x) = Inr (Some (format_f 2 (x / 1024 ^ k) @ '' '' @ us ! k))"
  using assms
proof (induction us arbitrary: k x)
  case Nil
  then show ?case by simp
next
  case (Cons u us)
  show ?case
  proof (cases k)
    case 0
    with Cons.prems show ?thesis by simp
  next
    case (Suc j)
    with Cons.prems have lo: "1024 * 1024 ^ j \<le> x" and hi: "x < 1024 * (1024 * 1024 ^ j)"
      and j: "j < length us"
      by simp_all
    have "(1::real) \<le> 1024 ^ j" by simp
    then have "(1024::real) * 1 \<le> 1024 * 1024 ^ j" by (intro mult_left_mono) auto
    with lo have nlt: "\<not> x < 1024" by linarith
    from lo have lo': "1024 ^ j \<le> x / 1024" by simp
    from hi have hi': "x / 1024 < 1024 ^ (j + 1)" by simp
    from Cons.IH [OF j _ hi'] lo'
    have "bytes_loop us (PyFloat (x / 1024))
          = Inr (Some (format_f 2 (x / 1024 / 1024 ^ j) @ '' '' @ us ! j))"
      by simp
    then show ?thesis using nlt Suc by simp
  qed
qed

lemmas ev = bytes_to_human_readable_def units_def float_of_int_def round_to_double_def
  format_f_def round_half_even_def str_nat.simps digit_char_def Let_def

text \<open>
  Claim C4. \<open>bytes_to_human_readable\<close> divides by 1024 from unit to unit of
  \<open>B, KiB, MiB, GiB, TiB\<close> and stops at the first unit where the value is below 1024:
  for a byte count \<open>n \<ge> 0\<close> with \<open>1024 ^ k \<le> n < 1024 ^ (k + 1)\<close> (no lower bound
  for \<open>k = 0\<close>) and \<open>k < 5\<close> the result is \<open>n / 1024 ^ k\<close> printed with two decimal
  places, a space and the \<open>k\<close>-th unit. In particular 0 gives \<open>0.00 B\<close>, 1024 gives
  \<open>1.00 KiB\<close>, 1536 gives \<open>1.50 KiB\<close> and 1073741824 gives \<open>1.00 GiB\<close>.
\<close>

theorem bytes_to_human_readable_units:
  assumes "0 \<le> n" "k < 5" "k = 0 \<or> 1024 ^ k \<le> n" "n < 1024 ^ (k + 1)"
  shows "bytes_to_human_readable n
           = Inr (Some (format_f 2 (of_int n / 1024 ^ k) @ '' '' @ units ! k))
       \<and> bytes_to_human_readable 0 = Inr (Some ''0.00 B'')
       \<and> bytes_to_human_readable 1024 = Inr (Some ''1.00 KiB'')
       \<and> bytes_to_human_readable 1536 = Inr (Some ''1.50 KiB'')
       \<and> bytes_to_human_readable 1073741824 = Inr (Some ''1.00 GiB'')"
proof -
  have "(1024::int) ^ (k + 1) \<le> 1024 ^ 5" using assms(2) by (intro power_increasing) auto
  then have "n < 2 ^ 53" using assms(4) by simp
  then have fl: "float_of_int n = Inr (of_int n)" using assms(1) by (intro float_of_int_small) simp
  have gen: "bytes_to_human_readable n
           = Inr (Some (format_f 2 (of_int n / 1024 ^ k) @ '' '' @ units ! k))"
  proof (cases k)
    case 0
    with assms(4) show ?thesis by (simp add: bytes_to_human_readable_def units_def fl)
  next
    case (Suc j)
    with assms have lo: "1024 * 1024 ^ j \<le> n" and hi: "n < 1024 * (1024 * 1024 ^ j)"
      and j: "j < 4"
      by simp_all
    have "(1::int) \<le> 1024 ^ j" by simp
    then have "(1024::int) * 1 \<le> 1024 * 1024 ^ j" by (intro mult_left_mono) auto
    with lo have nlt: "\<not> n < 1024" by linarith
    have lo': "1024 ^ j \<le> real_of_int n / 1024"
    proof -
      have "real_of_int (1024 * 1024 ^ j) \<le> real_of_int n" using lo by (simp only: of_int_le_iff)
      then show ?thesis by simp
    qed
    have hi': "real_of_int n / 1024 < 1024 ^ (j + 1)"
    proof -
      have "real_of_int n < real_of_int (1024 * (1024 * 1024 ^ j))"
        using hi by (simp only: of_int_less_iff)
      then show ?thesis by simp
    qed
    have "bytes_loop [''KiB'', ''MiB'', ''GiB'', ''TiB''] (PyFloat (real_of_int n / 1024))
          = Inr (Some (format_f 2 (real_of_int n / 1024 / 1024 ^ j) @ '' ''
                       @ [''KiB'', ''MiB'', ''GiB'', ''TiB''] ! j))"
      using j lo' hi' by (intro bytes_loop_unit) auto
    then show ?thesis using nlt Suc by (simp add: bytes_to_human_readable_def units_def fl)
  qed
  have e0: "bytes_to_human_readable 0 = Inr (Some ''0.00 B'')" by (simp add: ev)
  have e1: "bytes_to_human_readable 1024 = Inr (Some ''1.00 KiB'')" by (simp add: ev)
  have e2: "bytes_to_human_readable 1536 = Inr (Some ''1.50 KiB'')" by (simp add: ev)
  have e3: "bytes_to_human_readable 1073741824 = Inr (Some ''1.00 GiB'')" by (simp add: ev)
  from gen e0 e1 e2 e3 show ?thesis by simp
qed

theorem bytes_to_human_readable_units_witness:
  "bytes_to_human_readable 3145728 = Inr (Some ''3.00 MiB'')"
  using bytes_to_human_readable_units [of 3145728 2]
  by (simp add: units_def format_f_def round_half_even_def str_nat.simps digit_char_def Let_def)

text \<open>
  Claim C10, amended. For every byte count \<open>n \<ge> 1024 ^ 5\<close> the function returns no
  string: below \<open>2 ^ 1024 - 2 ^ 970\<close> the loop runs out of units and the result is
  \<^verbatim>\<open>None\<close>; from \<open>2 ^ 1024 - 2 ^ 970\<close> on, the first division converts the
  \<^verbatim>\<open>int\<close> to a float and raises \<^verbatim>\<open>OverflowError\<close>.
\<close>

theorem bytes_to_human_readable_large:
  assumes "1024 ^ 5 \<le> n"
  shows "bytes_to_human_readable n
           = (if n < 2 ^ 1024 - 2 ^ 970 then Inr None else Inl OverflowError)"
proof -
  have n50: "2 ^ 50 \<le> n" using assms by simp
  moreover have "(0::int) \<le> 2 ^ 50" by simp
  ultimately have npos: "0 \<le> n" by (rule order_trans [rotated])
  define a where "a = nat n"
  have an: "int a = n" using npos by (simp add: a_def)
  have a50: "2 ^ 50 \<le> a" using n50 an by (metis of_nat_le_iff of_nat_numeral of_nat_power)
  have nlt: "\<not> real_of_int n < 1024" using n50 by simp
  have ov: "2 ^ 1024 \<le> round_to_double a \<longleftrightarrow> \<not> n < 2 ^ 1024 - 2 ^ 970"
  proof -
    have "2 ^ 1024 - 2 ^ 970 \<le> a \<longleftrightarrow> int (2 ^ 1024 - 2 ^ 970) \<le> int a" by simp
    also have "int (2 ^ 1024 - 2 ^ 970) = 2 ^ 1024 - 2 ^ 970" by simp
    finally show ?thesis unfolding round_to_double_overflow an by linarith
  qed
  show ?thesis
  proof (cases "n < 2 ^ 1024 - 2 ^ 970")
    case True
    then have fl: "float_of_int n = Inr (real (round_to_double a))"
      using ov npos by (simp add: float_of_int_def a_def [symmetric] Let_def)
    have "real (2 ^ 50) \<le> real (round_to_double a)"
      using round_to_double_ge [OF a50] by (simp only: of_nat_le_iff)
    then have "1024 ^ length [''KiB'', ''MiB'', ''GiB'', ''TiB''] \<le> real (round_to_double a) / 1024"
      by simp
    then have "bytes_loop [''KiB'', ''MiB'', ''GiB'', ''TiB''] (PyFloat (real (round_to_double a) / 1024))
               = Inr None"
      by (rule bytes_loop_exhausted)
    then show ?thesis using True nlt by (simp add: bytes_to_human_readable_def units_def fl)
  next
    case False
    then have fl: "float_of_int n = Inl OverflowError"
      using ov by (simp add: float_of_int_def a_def [symmetric] Let_def)
    then show ?thesis using False nlt by (simp add: bytes_to_human_readable_def units_def)
  qed
qed

theorem bytes_to_human_readable_large_witness:
  "bytes_to_human_readable (1024 ^ 5) = Inr None"
  using bytes_to_human_readable_large [of "1024 ^ 5"] by simp

text \<open>
  Claim C10, as stated: every byte count from \<open>1024 ^ 5\<close> on yields \<^verbatim>\<open>None\<close>. At
  \<open>2 ^ 1024\<close> the function raises \<^verbatim>\<open>OverflowError\<close> instead.
\<close>

theorem bytes_to_human_readable_none_counterexample:
  "(1024::int) ^ 5 \<le> 2 ^ 1024 \<and> bytes_to_human_readable (2 ^ 1024) = Inl OverflowError
   \<and> bytes_to_human_readable (2 ^ 1024) \<noteq> Inr None"
proof -
  have "(2::nat) ^ 1024 \<le> round_to_double (2 ^ 1024)"
    unfolding round_to_double_overflow by simp
  then have "float_of_int (2 ^ 1024) = Inl OverflowError"
    by (simp add: float_of_int_def)
  then have "bytes_to_human_readable (2 ^ 1024) = Inl OverflowError"
    by (simp add: bytes_to_human_readable_def units_def)
  then show ?thesis by simp
qed

section \<open>Properties of the readers\<close>

lemma startswith_Cons:
  "startswith line (p # ps) \<longleftrightarrow> (\<exists>cs. line = p # cs \<and> startswith cs ps)"
  by (cases line) auto

lemma labels_distinct:
  "startswith line ''MemFree'' \<Longrightarrow> \<not> startswith line ''SwapFree''"
  "startswith line ''MemFree'' \<Longrightarrow> \<not> startswith line ''MemAvailable''"
  "startswith line ''SwapFree'' \<Longrightarrow> \<not> startswith line ''MemAvailable''"
  by (auto simp add: startswith_Cons)

lemma field_lines_Cons:
  "field_lines label (line # f)
     = (if startswith line label then line # field_lines label f else field_lines label f)"
  by (simp add: field_lines_def)

lemma numeric_field_Cons:
  "numeric_field label (line # f)
     \<longleftrightarrow> (startswith line label \<longrightarrow> \<not> isl (second_field line)) \<and> numeric_field label f"
  by (simp add: numeric_field_def field_lines_Cons)

lemma field_value_Cons:
  "field_value label (line # f)
     = (if field_lines label f = [] then
          (if startswith line label then
             (case second_field line of Inl e \<Rightarrow> None | Inr v \<Rightarrow> Some v)
           else None)
        else field_value label f)"
  by (cases "rev (field_lines label f)") (auto simp add: field_value_def field_lines_Cons)

lemma field_value_None:
  assumes "numeric_field label f"
  shows "field_value label f = None \<longleftrightarrow> field_lines label f = []"
proof (cases "rev (field_lines label f)")
  case Nil
  then show ?thesis by (simp add: field_value_def)
next
  case (Cons line earlier)
  then have "line \<in> set (field_lines label f)" by (metis list.set_intros(1) set_rev)
  then have "\<not> isl (second_field line)"
    using assms by (simp add: numeric_field_def list_all_iff)
  then obtain v where "second_field line = Inr v" by (cases "second_field line") auto
  then show ?thesis using Cons by (auto simp add: field_value_def)
qed

lemma avail_loop_fields:
  assumes "numeric_field ''MemFree'' f" "numeric_field ''SwapFree'' f"
    "numeric_field ''MemAvailable'' f"
  shows "avail_loop f mem_free swap_free mem_available
           = Inr (value_or mem_free (field_value ''MemFree'' f),
                  value_or swap_free (field_value ''SwapFree'' f),
                  value_or mem_available (field_value ''MemAvailable'' f))"
  using assms
proof (induction f arbitrary: mem_free swap_free mem_available)
  case Nil
  show ?case by (simp add: field_value_def field_lines_def value_or_def)
next
  case (Cons line f)
  from Cons.prems have nf: "numeric_field ''MemFree'' f" "numeric_field ''SwapFree'' f"
      "numeric_field ''MemAvailable'' f"
    by (simp_all add: numeric_field_Cons)
  note IH = Cons.IH [OF nf]
  note fv = field_value_None [OF nf(1)] field_value_None [OF nf(2)] field_value_None [OF nf(3)]
  consider (free) "startswith line ''MemFree''"
    | (swap) "startswith line ''SwapFree''"
    | (avail) "startswith line ''MemAvailable''"
    | (other) "\<not> startswith line ''MemFree''" "\<not> startswith line ''SwapFree''"
        "\<not> startswith line ''MemAvailable''"
    by blast
  then show ?case
  proof cases
    case free
    with Cons.prems(1) obtain v where v: "second_field line = Inr v"
      by (cases "second_field line") (auto simp add: numeric_field_Cons)
    have no: "\<not> startswith line ''SwapFree''" "\<not> startswith line ''MemAvailable''"
      using free labels_distinct by blast+
    show ?thesis
      unfolding avail_loop.simps field_value_Cons
      using free no v IH fv by (auto simp add: value_or_def split: option.splits)
  next
    case swap
    with Cons.prems(2) obtain v where v: "second_field line = Inr v"
      by (cases "second_field line") (auto simp add: numeric_field_Cons)
    have no: "\<not> startswith line ''MemFree''" "\<not> startswith line ''MemAvailable''"
      using swap labels_distinct by blast+
    show ?thesis
      unfolding avail_loop.simps field_value_Cons
      using swap no v IH fv by (auto simp add: value_or_def split: option.splits)
  next
    case avail
    with Cons.prems(3) obtain v where v: "second_field line = Inr v"
      by (cases "second_field line") (auto simp add: numeric_field_Cons)
    have no: "\<not> startswith line ''MemFree''" "\<not> startswith line ''SwapFree''"
      using avail labels_distinct by blast+
    show ?thesis
      unfolding avail_loop.simps field_value_Cons
      using avail no v IH fv by (auto simp add: value_or_def split: option.splits)
  next
    case other
    show ?thesis
      unfolding avail_loop.simps field_value_Cons
      using other IH fv by (auto simp add: value_or_def split: option.splits)
  qed
qed

lemmas parse_ev = second_field_def split_def isspace_def int_of_str_def unsigned_of_str_def
  isdigit_def digit_value_def Let_def

lemmas world_ev = open_file_def log_event_def print_def fixed_world_def start_def
  meminfo_only_def no_output_def demo_world_def demo_files_def demo_pidof_def smaps_path_def

lemmas field_ev = field_value_def field_values_def field_lines_def numeric_field_def value_or_def

text \<open>
  Claim C5. On every memory-info source whose \<^verbatim>\<open>MemFree\<close>, \<^verbatim>\<open>SwapFree\<close> and
  \<^verbatim>\<open>MemAvailable\<close> lines carry numbers: when no line begins with \<^verbatim>\<open>MemAvailable\<close>,
  or its value is zero, \<open>get_avail_mem\<close> returns \<^verbatim>\<open>MemFree\<close> plus \<^verbatim>\<open>SwapFree\<close>
  (each zero when absent); otherwise it returns the \<^verbatim>\<open>MemAvailable\<close> value, whatever
  the other two are.
\<close>

theorem get_avail_mem_fallback:
  assumes "files w (length (io_log s)) ''/proc/meminfo'' = Inr f"
    and "numeric_field ''MemFree'' f" "numeric_field ''SwapFree'' f"
    and "numeric_field ''MemAvailable'' f"
  shows "fst (get_avail_mem w s)
           = Inr (let fallback = value_or 0 (field_value ''MemFree'' f)
                                 + value_or 0 (field_value ''SwapFree'' f)
                  in case field_value ''MemAvailable'' f of
                       None \<Rightarrow> fallback
                     | Some mem_available \<Rightarrow>
                         if mem_available = 0 then fallback else mem_available)"
  using assms(1) avail_loop_fields [OF assms(2-4), of 0 0 0]
  by (simp add: get_avail_mem_def open_file_def get_avail_mem_lines_def value_or_def
      split: option.splits)

theorem get_avail_mem_fallback_witness:
  "fst (get_avail_mem
          (fixed_world (meminfo_only [''MemTotal:       8000000 kB\<newline>'',
                                      ''MemFree:         500000 kB\<newline>'',
                                      ''SwapFree:             0 kB\<newline>'']) no_output)
          start) = Inr 500000
   \<and> fst (get_avail_mem
          (fixed_world (meminfo_only [''MemTotal:       8000000 kB\<newline>'',
                                      ''MemFree:         500000 kB\<newline>'',
                                      ''MemAvailable:   3000000 kB\<newline>'',
                                      ''SwapFree:       1000000 kB\<newline>'']) no_output)
          start) = Inr 3000000"
  using
    get_avail_mem_fallback
      [of "fixed_world (meminfo_only [''MemTotal:       8000000 kB\<newline>'',
                                      ''MemFree:         500000 kB\<newline>'',
                                      ''SwapFree:             0 kB\<newline>'']) no_output"
          start
          "[''MemTotal:       8000000 kB\<newline>'',
            ''MemFree:         500000 kB\<newline>'',
            ''SwapFree:             0 kB\<newline>'']"]
    get_avail_mem_fallback
      [of "fixed_world (meminfo_only [''MemTotal:       8000000 kB\<newline>'',
                                      ''MemFree:         500000 kB\<newline>'',
                                      ''MemAvailable:   3000000 kB\<newline>'',
                                      ''SwapFree:       1000000 kB\<newline>'']) no_output"
          start
          "[''MemTotal:       8000000 kB\<newline>'',
            ''MemFree:         500000 kB\<newline>'',
            ''MemAvailable:   3000000 kB\<newline>'',
            ''SwapFree:       1000000 kB\<newline>'']"]
  by (simp add: world_ev field_ev parse_ev)

lemma rss_lines_sum:
  assumes "numeric_field ''Rss'' f"
  shows "rss_lines f rss_total = Inr (rss_total + sum_list (field_values ''Rss'' f))"
  using assms
proof (induction f arbitrary: rss_total)
  case Nil
  show ?case by (simp add: field_values_def field_lines_def)
next
  case (Cons line f)
  from Cons.prems have nf: "numeric_field ''Rss'' f" by (simp add: numeric_field_Cons)
  show ?case
  proof (cases "startswith line ''Rss''")
    case True
    with Cons.prems obtain v where v: "second_field line = Inr v"
      by (cases "second_field line") (auto simp add: numeric_field_Cons)
    show ?thesis
      using True v Cons.IH [OF nf] by (simp add: field_values_def field_lines_Cons)
  next
    case False
    then show ?thesis
      using Cons.IH [OF nf] by (simp add: field_values_def field_lines_Cons)
  qed
qed

text \<open>
  Claim C6. When the memory-map source of a process exists and its \<^verbatim>\<open>Rss\<close> lines
  carry numbers, \<open>rss_mem_of_pid\<close> returns the sum of the values of all the lines
  that begin with \<^verbatim>\<open>Rss\<close>, prints nothing and opens the source once; two regions
  with 100 and 250 give 350.
\<close>

theorem rss_mem_of_pid_sum:
  assumes "files w (length (io_log s)) (smaps_path pid) = Inr f"
    and "numeric_field ''Rss'' f"
  shows "rss_mem_of_pid w pid s
           = (Inr (sum_list (field_values ''Rss'' f)), log_event (Open (smaps_path pid)) s)"
  using assms(1) rss_lines_sum [OF assms(2), of 0]
  by (simp add: rss_mem_of_pid_def open_file_def)

theorem rss_mem_of_pid_sum_witness:
  "rss_mem_of_pid demo_world ''101'' start
     = (Inr 350, \<lparr>io_log = [Open ''/proc/101/smaps''], stdout = []\<rparr>)"
  using rss_mem_of_pid_sum [of demo_world start "''101''"
      "[''55d0c0a00000-55d0c0a21000 r--p 00000000 08:01 131 /usr/bin/demo\<newline>'',
        ''Size:                132 kB\<newline>'',
        ''Rss:                 100 kB\<newline>'',
        ''Pss:                  90 kB\<newline>'',
        ''7ffd1c000000-7ffd1c021000 rw-p 00000000 00:00 0 [stack]\<newline>'',
        ''Size:                260 kB\<newline>'',
        ''Rss:                 250 kB\<newline>'']"]
  by (simp add: world_ev field_ev parse_ev)

text \<open>
  Claim C7. When the memory-map source of a process is missing, \<open>rss_mem_of_pid\<close>
  returns zero and prints \<^verbatim>\<open>Process <pid> not found.\<close> instead of raising, and the
  summing loop of the driver goes on to the remaining processes with an unchanged
  total.
\<close>

theorem rss_mem_of_pid_missing:
  assumes "files w (length (io_log s)) (smaps_path pid) = Inl FileNotFoundError"
  shows "rss_mem_of_pid w pid s
           = (Inr 0, print (''Process '' @ pid @ '' not found.'')
                       (log_event (Open (smaps_path pid)) s))
       \<and> sum_rss w (pid # pids) total_prog_rss s
           = sum_rss w pids total_prog_rss
               (print (''Process '' @ pid @ '' not found.'')
                  (log_event (Open (smaps_path pid)) s))"
  using assms by (simp add: rss_mem_of_pid_def open_file_def)

theorem rss_mem_of_pid_missing_witness:
  "rss_mem_of_pid demo_world ''202'' start
     = (Inr 0, \<lparr>io_log = [Open ''/proc/202/smaps''], stdout = [''Process 202 not found.'']\<rparr>)
   \<and> sum_rss demo_world [''202'', ''101''] 0 start
     = (Inr 350, \<lparr>io_log = [Open ''/proc/202/smaps'', Open ''/proc/101/smaps''],
                  stdout = [''Process 202 not found.'']\<rparr>)"
  using rss_mem_of_pid_missing [of demo_world start "''202''" "[''101'']" 0]
  by (simp add: world_ev rss_mem_of_pid_def parse_ev)

section \<open>Properties of the driver\<close>

subsection \<open>The accesses of a run\<close>

lemma get_sys_mem_state: "snd (get_sys_mem w s) = log_event (Open ''/proc/meminfo'') s"
  by (simp add: get_sys_mem_def open_file_def split: sum.splits)

lemma get_avail_mem_state: "snd (get_avail_mem w s) = log_event (Open ''/proc/meminfo'') s"
  by (simp add: get_avail_mem_def open_file_def split: sum.splits)

lemma main_snapshot_state:
  assumes "main_snapshot w a s = (Inr m, s')"
  shows "s' = log_event (Open ''/proc/meminfo'') (log_event (Open ''/proc/meminfo'') s)"
proof -
  obtain r1 s1 where g1: "get_sys_mem w s = (r1, s1)" by (cases "get_sys_mem w s")
  obtain r2 s2 where g2: "get_avail_mem w s1 = (r2, s2)" by (cases "get_avail_mem w s1")
  have s1: "s1 = log_event (Open ''/proc/meminfo'') s" using get_sys_mem_state [of w s] g1 by simp
  have s2: "s2 = log_event (Open ''/proc/meminfo'') s1" using get_avail_mem_state [of w s1] g2 by simp
  have "s' = s2"
    using assms by (simp add: main_snapshot_def g1 g2 split: sum.splits option.splits)
  then show ?thesis using s1 s2 by simp
qed

lemma pids_of_prog_log:
  "io_log (snd (pids_of_prog w prog s)) = io_log s @ [Popen (''pidof '' @ prog)]"
  by (simp add: pids_of_prog_def Let_def log_event_def print_def split: sum.splits)

lemma rss_mem_of_pid_log:
  "io_log (snd (rss_mem_of_pid w pid s)) = io_log s @ [Open (smaps_path pid)]"
  by (simp add: rss_mem_of_pid_def open_file_def log_event_def print_def split: sum.splits)

lemma sum_rss_log:
  "sum_rss w pids total_prog_rss s = (Inr v, s')
   \<Longrightarrow> io_log s' = io_log s @ map (\<lambda>pid. Open (smaps_path pid)) pids"
proof (induction pids arbitrary: total_prog_rss s)
  case Nil
  then show ?case by simp
next
  case (Cons pid pids)
  obtain r s1 where r: "rss_mem_of_pid w pid s = (r, s1)" by (cases "rss_mem_of_pid w pid s")
  have l1: "io_log s1 = io_log s @ [Open (smaps_path pid)]"
    using rss_mem_of_pid_log [of w pid s] r by simp
  from Cons.prems r obtain pid_rss where "r = Inr pid_rss"
    and "sum_rss w pids (total_prog_rss + pid_rss) s1 = (Inr v, s')"
    by (cases r) auto
  from Cons.IH [OF this(2)] l1 show ?case by simp
qed

lemma report_pids_log:
  "report_pids w a total_mem total_mem_hr pids s = (Inr u, s')
   \<Longrightarrow> io_log s' = io_log s @ map (\<lambda>pid. Open (smaps_path pid)) pids"
proof (induction pids arbitrary: s)
  case Nil
  then show ?case by simp
next
  case (Cons pid pids)
  obtain r s1 where r: "rss_mem_of_pid w pid s = (r, s1)" by (cases "rss_mem_of_pid w pid s")
  have l1: "io_log s1 = io_log s @ [Open (smaps_path pid)]"
    using rss_mem_of_pid_log [of w pid s] r by simp
  from Cons.prems r obtain line where
    "report_pids w a total_mem total_mem_hr pids (print line s1) = (Inr u, s')"
    by (auto split: sum.splits)
  from Cons.IH [OF this] l1 show ?case by (simp add: print_def)
qed

lemma main_program_log:
  assumes "main_program w a prog total_mem total_mem_hr s = (Inr u, s')"
  shows "io_log s' = io_log s @ Popen (''pidof '' @ prog)
           # map (\<lambda>pid. Open (smaps_path pid)) (fst (pids_of_prog w prog s))
           @ map (\<lambda>pid. Open (smaps_path pid)) (fst (pids_of_prog w prog s))"
proof -
  obtain pids s1 where p: "pids_of_prog w prog s = (pids, s1)" by (cases "pids_of_prog w prog s")
  have l1: "io_log s1 = io_log s @ [Popen (''pidof '' @ prog)]"
    using pids_of_prog_log [of w prog s] p by simp
  show ?thesis
  proof (cases "pids = []")
    case True
    then show ?thesis using assms p l1 by (auto simp add: main_program_def print_def)
  next
    case False
    obtain r s2 where r: "sum_rss w pids 0 s1 = (r, s2)" by (cases "sum_rss w pids 0 s1")
    from assms p False r obtain v line where rv: "r = Inr v"
      and rep: "report_pids w a total_mem total_mem_hr pids (print line s2) = (Inr u, s')"
      by (auto simp add: main_program_def split: sum.splits)
    from sum_rss_log [OF r [unfolded rv]] have l2: "io_log s2 = io_log s1 @ map (\<lambda>pid. Open (smaps_path pid)) pids" .
    from report_pids_log [OF rep] l2 l1 p show ?thesis by (simp add: print_def)
  qed
qed

lemma main_snapshot_log_any:
  assumes "main_snapshot w a s = (r, s')"
  shows "io_log s' = io_log s @ [Open ''/proc/meminfo'']
       \<or> io_log s' = io_log s @ [Open ''/proc/meminfo'', Open ''/proc/meminfo'']"
proof -
  obtain r1 s1 where g1: "get_sys_mem w s = (r1, s1)" by (cases "get_sys_mem w s")
  obtain r2 s2 where g2: "get_avail_mem w s1 = (r2, s2)" by (cases "get_avail_mem w s1")
  have s1: "s1 = log_event (Open ''/proc/meminfo'') s" using get_sys_mem_state [of w s] g1 by simp
  have s2: "s2 = log_event (Open ''/proc/meminfo'') s1" using get_avail_mem_state [of w s1] g2 by simp
  have "s' = s1 \<or> s' = s2"
    using assms by (auto simp add: main_snapshot_def g1 g2 split: sum.splits option.splits)
  then show ?thesis using s1 s2 by (auto simp add: log_event_def)
qed

lemma sum_rss_log_any:
  "sum_rss w pids total_prog_rss s = (r, s')
   \<Longrightarrow> \<exists>xs. io_log s' = io_log s @ xs \<and> prefix xs (map (\<lambda>pid. Open (smaps_path pid)) pids)"
proof (induction pids arbitrary: total_prog_rss s)
  case Nil
  then show ?case by simp
next
  case (Cons pid pids)
  obtain r1 s1 where r: "rss_mem_of_pid w pid s = (r1, s1)" by (cases "rss_mem_of_pid w pid s")
  have l1: "io_log s1 = io_log s @ [Open (smaps_path pid)]"
    using rss_mem_of_pid_log [of w pid s] r by simp
  show ?case
  proof (cases r1)
    case (Inl e)
    with Cons.prems r have "s' = s1" by simp
    then show ?thesis using l1 by simp
  next
    case (Inr pid_rss)
    with Cons.prems r have "sum_rss w pids (total_prog_rss + pid_rss) s1 = (r, s')" by simp
    from Cons.IH [OF this] obtain xs where "io_log s' = io_log s1 @ xs"
      "prefix xs (map (\<lambda>pid. Open (smaps_path pid)) pids)" by blast
    then show ?thesis using l1 by simp
  qed
qed

lemma report_pids_log_any:
  "report_pids w a total_mem total_mem_hr pids s = (r, s')
   \<Longrightarrow> \<exists>xs. io_log s' = io_log s @ xs \<and> prefix xs (map (\<lambda>pid. Open (smaps_path pid)) pids)"
proof (induction pids arbitrary: s)
  case Nil
  then show ?case by simp
next
  case (Cons pid pids)
  obtain r1 s1 where r: "rss_mem_of_pid w pid s = (r1, s1)" by (cases "rss_mem_of_pid w pid s")
  have l1: "io_log s1 = io_log s @ [Open (smaps_path pid)]"
    using rss_mem_of_pid_log [of w pid s] r by simp
  from Cons.prems r
  consider "s' = s1"
    | line where "report_pids w a total_mem total_mem_hr pids (print line s1) = (r, s')"
    by (auto split: sum.splits)
  then show ?case
  proof cases
    case 1
    then show ?thesis using l1 by simp
  next
    case 2
    from Cons.IH [OF this] obtain xs where "io_log s' = io_log (print line s1) @ xs"
      "prefix xs (map (\<lambda>pid. Open (smaps_path pid)) pids)" by blast
    then show ?thesis using l1 by (simp add: print_def)
  qed
qed

lemma main_program_log_any:
  assumes "main_program w a prog total_mem total_mem_hr s = (r, s')"
  shows "\<exists>xs. io_log s' = io_log s @ xs
           \<and> prefix xs (Popen (''pidof '' @ prog)
                # map (\<lambda>pid. Open (smaps_path pid)) (fst (pids_of_prog w prog s))
                @ map (\<lambda>pid. Open (smaps_path pid)) (fst (pids_of_prog w prog s)))"
proof -
  obtain pids s1 where p: "pids_of_prog w prog s = (pids, s1)" by (cases "pids_of_prog w prog s")
  have l1: "io_log s1 = io_log s @ [Popen (''pidof '' @ prog)]"
    using pids_of_prog_log [of w prog s] p by simp
  let ?f = "\<lambda>pid. Open (smaps_path pid)"
  show ?thesis
  proof (cases "pids = []")
    case True
    then show ?thesis using assms p l1 by (auto simp add: main_program_def print_def)
  next
    case False
    obtain r2 s2 where r2: "sum_rss w pids 0 s1 = (r2, s2)" by (cases "sum_rss w pids 0 s1")
    from sum_rss_log_any [OF r2] obtain xs where xs: "io_log s2 = io_log s1 @ xs"
      "prefix xs (map ?f pids)" by blast
    from assms p False r2
    consider "s' = s2"
      | v line where "r2 = Inr v"
          "report_pids w a total_mem total_mem_hr pids (print line s2) = (r, s')"
      by (auto simp add: main_program_def split: sum.splits)
    then show ?thesis
    proof cases
      case 1
      then show ?thesis using xs l1 p by simp
    next
      case 2
      from sum_rss_log [OF r2 [unfolded 2(1)]] have l2: "io_log s2 = io_log s1 @ map ?f pids" .
      from report_pids_log_any [OF 2(2)] obtain ys where
        ys: "io_log s' = io_log (print line s2) @ ys" "prefix ys (map ?f pids)" by blast
      then show ?thesis using l1 l2 p by (simp add: print_def)
    qed
  qed
qed

lemma main_log_any:
  "prefix (io_log (snd (main w a s))) (io_log s @ expected_accesses w a s)"
proof -
  obtain r s1 where sn: "main_snapshot w a s = (r, s1)" by (cases "main_snapshot w a s")
  from main_snapshot_log_any [OF sn]
  have l1: "io_log s1 = io_log s @ [Open ''/proc/meminfo'']
       \<or> io_log s1 = io_log s @ [Open ''/proc/meminfo'', Open ''/proc/meminfo'']" .
  show ?thesis
  proof (cases r)
    case (Inl e)
    then have "snd (main w a s) = s1" using sn by (simp add: main_def)
    then show ?thesis using l1 by (auto simp add: expected_accesses_def)
  next
    case (Inr m)
    from main_snapshot_state [OF sn [unfolded Inr]]
    have s1: "s1 = log_event (Open ''/proc/meminfo'') (log_event (Open ''/proc/meminfo'') s)" .
    then have l2: "io_log s1 = io_log s @ [Open ''/proc/meminfo'', Open ''/proc/meminfo'']"
      by (simp add: log_event_def)
    show ?thesis
    proof (cases "given_program a")
      case None
      then show ?thesis using sn Inr l2 by (simp add: main_def expected_accesses_def print_def)
    next
      case (Some prog)
      obtain r' s' where mp:
        "main_program w a prog (snap_total_mem m) (snap_total_mem_hr m) s1 = (r', s')"
        by (cases "main_program w a prog (snap_total_mem m) (snap_total_mem_hr m) s1")
      from main_program_log_any [OF mp] obtain xs where "io_log s' = io_log s1 @ xs"
        "prefix xs (Popen (''pidof '' @ prog)
                # map (\<lambda>pid. Open (smaps_path pid)) (fst (pids_of_prog w prog s1))
                @ map (\<lambda>pid. Open (smaps_path pid)) (fst (pids_of_prog w prog s1)))"
        by blast
      moreover have "snd (main w a s) = s'" using sn Inr Some mp by (simp add: main_def)
      ultimately show ?thesis
        using l2 Some s1 by (simp add: expected_accesses_def Let_def)
    qed
  qed
qed

subsection \<open>The example run\<close>

lemma replicate_3: "replicate 3 c = [c, c, c]"
  by (simp add: numeral_3_eq_3)

lemma replicate_7: "replicate 7 c = [c, c, c, c, c, c, c]"
  by (simp add: eval_nat_numeral)

lemma replicate_10: "replicate 10 c = [c, c, c, c, c, c, c, c, c, c]"
  by (simp add: eval_nat_numeral)

lemma double_of_int_demo:
  "double_of_int 10 = Inr (Finite False 10)"
  by (simp add: double_of_int_def float_of_int_def round_to_double_def)

lemma truediv_demo:
  "py_truediv 750 1000 = Inr (Finite False (3 / 4))"
  "py_truediv 350 1000 = Inr (Finite False (3152519739159347 / 9007199254740992))"
  "py_truediv 0 1000 = Inr (Finite False 0)"
  by (simp_all add: py_truediv_def fl_ev)

lemma round_to_demo:
  "round_to False (15 / 2) = Finite False (15 / 2)"
  "round_to False (15762598695796735 / 4503599627370496) = Finite False (7 / 2)"
  "round_to False 0 = Finite False 0"
  "round_to False 75 = Finite False 75"
  by (simp_all add: fl_ev)

lemma bar_demo:
  "percent_to_graph (Finite False (3 / 4)) 10 = Inr ''#######   ''"
  "percent_to_graph (Finite False (3152519739159347 / 9007199254740992)) 10
     = Inr ''###       ''"
  "percent_to_graph (Finite False 0) 10 = Inr ''          ''"
  by (simp_all add: percent_to_graph_def double_of_int_demo round_to_demo py_repeat_def
      replicate_3 replicate_7 replicate_10)

lemma size_text_demo:
  "size_text False 1000 = Inr ''1000 KiB''" "size_text False 750 = Inr ''750 KiB''"
  "size_text False 250 = Inr ''250 KiB''" "size_text False 350 = Inr ''350 KiB''"
  "size_text False 0 = Inr ''0 KiB''"
  by (simp_all add: size_text_def str_int_def str_nat.simps digit_char_def)

lemma percent_75:
  "format_double 0 (fmul (Finite False (3 / 4)) (Finite False 100)) = ''75''"
  by (simp add: round_to_demo format_f_def round_half_even_def str_nat.simps digit_char_def)

lemma demo_get_sys_mem:
  "get_sys_mem demo_world s = (Inr (Some 1000), log_event (Open ''/proc/meminfo'') s)"
  by (simp add: get_sys_mem_def open_file_def demo_world_def fixed_world_def demo_files_def
      parse_ev)

lemma demo_get_avail_mem:
  "get_avail_mem demo_world s = (Inr 250, log_event (Open ''/proc/meminfo'') s)"
  by (simp add: get_avail_mem_def get_avail_mem_lines_def open_file_def demo_world_def
      fixed_world_def demo_files_def parse_ev)

lemma demo_snapshot:
  "main_snapshot demo_world \<lparr>program = p, human_readable = False, length_arg = 10\<rparr> s
     = (Inr \<lparr>snap_total_mem = 1000, snap_used_mem = 750,
             snap_percent_used = Finite False (3 / 4),
             snap_total_mem_hr = ''1000 KiB'', snap_used_mem_hr = ''750 KiB'',
             snap_bar_graph = ''#######   ''\<rparr>,
        log_event (Open ''/proc/meminfo'') (log_event (Open ''/proc/meminfo'') s))"
  by (simp add: main_snapshot_def demo_get_sys_mem demo_get_avail_mem truediv_demo
      size_text_demo bar_demo)

lemma demo_pidof:
  "pids_of_prog demo_world ''demo'' s = ([''101'', ''202''], log_event (Popen ''pidof demo'') s)"
  "pids_of_prog demo_world ''ghost'' s = ([], log_event (Popen ''pidof ghost'') s)"
  by (simp_all add: pids_of_prog_def demo_world_def fixed_world_def demo_pidof_def strip_def
      split_def isspace_def Let_def)

lemma demo_rss:
  "rss_mem_of_pid demo_world ''101'' s = (Inr 350, log_event (Open ''/proc/101/smaps'') s)"
  "rss_mem_of_pid demo_world ''202'' s
     = (Inr 0, print ''Process 202 not found.'' (log_event (Open ''/proc/202/smaps'') s))"
  by (simp_all add: rss_mem_of_pid_def open_file_def smaps_path_def demo_world_def
      fixed_world_def demo_files_def parse_ev)

subsection \<open>The reports\<close>

lemma get_sys_mem_lines_first:
  "get_sys_mem_lines f
     = (case field_lines ''MemTotal'' f of
          [] \<Rightarrow> Inr None
        | line # later \<Rightarrow>
            (case second_field line of Inl e \<Rightarrow> Inl e | Inr v \<Rightarrow> Inr (Some v)))"
  by (induction f) (simp_all add: field_lines_def)

lemma get_sys_mem_lines_value:
  "first_field_value ''MemTotal'' f = Some v \<Longrightarrow> get_sys_mem_lines f = Inr (Some v)"
  by (auto simp add: get_sys_mem_lines_first first_field_value_def
        split: list.splits sum.splits)

lemma get_avail_mem_lines_value:
  assumes "numeric_field ''MemFree'' f" "numeric_field ''SwapFree'' f"
    "numeric_field ''MemAvailable'' f"
    and "field_value ''MemAvailable'' f = Some v" "v \<noteq> 0"
  shows "get_avail_mem_lines f = Inr v"
  using avail_loop_fields [OF assms(1-3), of 0 0 0] assms(4,5)
  by (simp add: get_avail_mem_lines_def value_or_def)

text \<open>
  Claim C1. With a memory-info source whose \<^verbatim>\<open>MemTotal\<close> field is 1000 and whose
  \<^verbatim>\<open>MemAvailable\<close> field is 250, no program argument, bar length 10 and
  human-readable sizes off, the driver prints the single line
  \<^verbatim>\<open>Memory         [#######    | 75%] 750 KiB/1000 KiB\<close>: the bar has 7 fill characters
  followed by 3 spaces, and the size field is \<^verbatim>\<open>750 KiB/1000 KiB\<close>.
\<close>

theorem main_system_report:
  assumes "files w (length (io_log s)) ''/proc/meminfo'' = Inr f1"
    and "files w (Suc (length (io_log s))) ''/proc/meminfo'' = Inr f2"
    and "first_field_value ''MemTotal'' f1 = Some 1000"
    and "numeric_field ''MemFree'' f2" "numeric_field ''SwapFree'' f2"
    and "numeric_field ''MemAvailable'' f2"
    and "field_value ''MemAvailable'' f2 = Some 250"
    and "given_program a = None" "\<not> human_readable a" "length_arg a = 10"
  shows "main w a s
           = (Inr (), print ''Memory         [#######    | 75%] 750 KiB/1000 KiB''
                        (log_event (Open ''/proc/meminfo'')
                           (log_event (Open ''/proc/meminfo'') s)))
       \<and> py_truediv (1000 - 250) 1000 = Inr (Finite False (3 / 4))
       \<and> percent_to_graph (Finite False (3 / 4)) 10
           = Inr (replicate 7 (CHR ''#'') @ replicate 3 (CHR '' ''))"
proof -
  have t: "get_sys_mem_lines f1 = Inr (Some 1000)"
    using assms(3) by (rule get_sys_mem_lines_value)
  have v: "get_avail_mem_lines f2 = Inr 250"
    using assms(4-7) by (rule get_avail_mem_lines_value) simp
  have g1: "get_sys_mem w s = (Inr (Some 1000), log_event (Open ''/proc/meminfo'') s)"
    using assms(1) t by (simp add: get_sys_mem_def open_file_def)
  have g2: "get_avail_mem w (log_event (Open ''/proc/meminfo'') s)
              = (Inr 250, log_event (Open ''/proc/meminfo'') (log_event (Open ''/proc/meminfo'') s))"
    using assms(2) v by (simp add: get_avail_mem_def open_file_def log_event_def)
  have sn: "main_snapshot w a s
     = (Inr \<lparr>snap_total_mem = 1000, snap_used_mem = 750,
             snap_percent_used = Finite False (3 / 4),
             snap_total_mem_hr = ''1000 KiB'', snap_used_mem_hr = ''750 KiB'',
             snap_bar_graph = ''#######   ''\<rparr>,
        log_event (Open ''/proc/meminfo'') (log_event (Open ''/proc/meminfo'') s))"
    using assms(9,10)
    by (simp add: main_snapshot_def g1 g2 truediv_demo size_text_demo bar_demo)
  have p: "format_double 0 (round_to False 75) = ''75''"
    using percent_75 by simp
  have m: "main w a s
           = (Inr (), print ''Memory         [#######    | 75%] 750 KiB/1000 KiB''
                        (log_event (Open ''/proc/meminfo'')
                           (log_event (Open ''/proc/meminfo'') s)))"
    using assms(8) by (simp add: main_def sn p)
  have b: "percent_to_graph (Finite False (3 / 4)) 10
             = Inr (replicate 7 (CHR ''#'') @ replicate 3 (CHR '' ''))"
    unfolding bar_demo by (simp add: replicate_3 replicate_7)
  have d: "py_truediv (1000 - 250) 1000 = Inr (Finite False (3 / 4))"
    using truediv_demo(1) by simp
  from m b d show ?thesis by simp
qed

theorem main_system_report_witness:
  "main demo_world \<lparr>program = None, human_readable = False, length_arg = 10\<rparr> start
     = (Inr (), \<lparr>io_log = [Open ''/proc/meminfo'', Open ''/proc/meminfo''],
                 stdout = [''Memory         [#######    | 75%] 750 KiB/1000 KiB'']\<rparr>)"
  using main_system_report [of demo_world start
      "[''MemTotal:        1000 kB\<newline>'',
        ''MemFree:          100 kB\<newline>'',
        ''MemAvailable:     250 kB\<newline>'',
        ''SwapFree:          50 kB\<newline>'']"
      "[''MemTotal:        1000 kB\<newline>'',
        ''MemFree:          100 kB\<newline>'',
        ''MemAvailable:     250 kB\<newline>'',
        ''SwapFree:          50 kB\<newline>'']"
      "\<lparr>program = None, human_readable = False, length_arg = 10\<rparr>"]
  by (simp add: world_ev parse_ev field_ev first_field_value_def given_program_def)

text \<open>
  Claim C8. When a program argument is given, the memory snapshot has been computed
  and the resolver returns no process identifier, the driver prints
  \<^verbatim>\<open><name> not found.\<close> and returns normally; after the snapshot it makes the one
  \<^verbatim>\<open>pidof\<close> call and no other access.
\<close>

theorem main_program_not_found:
  assumes "main_snapshot w a s = (Inr m, s1)"
    and "given_program a = Some prog"
    and "fst (pids_of_prog w prog s1) = []"
  shows "main w a s = (Inr (), print (prog @ '' not found.'') (snd (pids_of_prog w prog s1)))
       \<and> io_log (snd (main w a s)) = io_log s1 @ [Popen (''pidof '' @ prog)]"
proof -
  obtain pids s2 where p: "pids_of_prog w prog s1 = (pids, s2)"
    by (cases "pids_of_prog w prog s1")
  with assms(3) have e: "pids = []" by simp
  have m: "main w a s = (Inr (), print (prog @ '' not found.'') s2)"
    using assms(1,2) p e by (simp add: main_def main_program_def)
  have "io_log s2 = io_log s1 @ [Popen (''pidof '' @ prog)]"
    using pids_of_prog_log [of w prog s1] p by simp
  with m p show ?thesis by (simp add: print_def)
qed

theorem main_program_not_found_witness:
  "main demo_world \<lparr>program = Some ''ghost'', human_readable = False, length_arg = 10\<rparr> start
     = (Inr (), \<lparr>io_log = [Open ''/proc/meminfo'', Open ''/proc/meminfo'', Popen ''pidof ghost''],
                 stdout = [''ghost not found.'']\<rparr>)"
  using main_program_not_found [of demo_world
      "\<lparr>program = Some ''ghost'', human_readable = False, length_arg = 10\<rparr>" start
      "\<lparr>snap_total_mem = 1000, snap_used_mem = 750,
        snap_percent_used = Finite False (3 / 4),
        snap_total_mem_hr = ''1000 KiB'', snap_used_mem_hr = ''750 KiB'',
        snap_bar_graph = ''#######   ''\<rparr>"
      "log_event (Open ''/proc/meminfo'') (log_event (Open ''/proc/meminfo'') start)"
      "''ghost''"]
  by (simp add: demo_snapshot demo_pidof given_program_def log_event_def print_def start_def)

lemma demo_run:
  "main demo_world \<lparr>program = Some ''demo'', human_readable = False, length_arg = 10\<rparr> start
     = (Inr (),
        \<lparr>io_log = [Open ''/proc/meminfo'', Open ''/proc/meminfo'', Popen ''pidof demo'',
                   Open ''/proc/101/smaps'', Open ''/proc/202/smaps'',
                   Open ''/proc/101/smaps'', Open ''/proc/202/smaps''],
         stdout = [''Process 202 not found.'',
                   ''demo        [###       ] 350 KiB/1000 KiB'',
                   ''101         [###       ] 350 KiB/1000 KiB'',
                   ''Process 202 not found.'',
                   ''202         [          ] 0 KiB/1000 KiB'']\<rparr>)"
  by (simp add: main_def main_program_def demo_snapshot demo_pidof demo_rss
      given_program_def size_text_demo truediv_demo bar_demo
      log_event_def print_def start_def)

lemma main_log_normal:
  assumes "main w a s = (Inr u, s')"
  shows "io_log s' = io_log s @ expected_accesses w a s"
proof -
  obtain r s1 where sn: "main_snapshot w a s = (r, s1)" by (cases "main_snapshot w a s")
  with assms obtain m where r: "r = Inr m" by (cases r) (auto simp add: main_def)
  from main_snapshot_state [OF sn [unfolded r]]
  have s1: "s1 = log_event (Open ''/proc/meminfo'') (log_event (Open ''/proc/meminfo'') s)" .
  then have l1: "io_log s1 = io_log s @ [Open ''/proc/meminfo'', Open ''/proc/meminfo'']"
    by (simp add: log_event_def)
  show ?thesis
  proof (cases "given_program a")
    case None
    with assms sn r have "s' = print (''Memory         ['' @ snap_bar_graph m @ '' | ''
                               @ format_double 0 (fmul (snap_percent_used m) (Finite False 100))
                               @ ''%] '' @ snap_used_mem_hr m @ ''/'' @ snap_total_mem_hr m) s1"
      by (simp add: main_def)
    then show ?thesis using None l1 by (simp add: print_def expected_accesses_def)
  next
    case (Some prog)
    with assms sn r
    have "main_program w a prog (snap_total_mem m) (snap_total_mem_hr m) s1 = (Inr u, s')"
      by (simp add: main_def)
    from main_program_log [OF this] show ?thesis
      using Some l1 s1 by (simp add: Let_def expected_accesses_def)
  qed
qed


text \<open>
  Claim C9, amended. There are no retries, but the sources are read twice. The
  accesses of every run, failed or not, are an initial part of \<open>expected_accesses\<close>,
  and those of a run that returns normally are exactly \<open>expected_accesses\<close>: the
  memory-info source is opened twice (once by \<open>get_sys_mem\<close>, once by
  \<open>get_avail_mem\<close>), \<^verbatim>\<open>pidof\<close> is called once when a program is given, and the
  memory-map source of each resolved process is opened twice (once in the summing
  loop, once in the reporting loop).
\<close>

theorem main_io_log:
  "prefix (io_log (snd (main w a s))) (io_log s @ expected_accesses w a s)
   \<and> (fst (main w a s) = Inr ()
        \<longrightarrow> io_log (snd (main w a s)) = io_log s @ expected_accesses w a s)"
proof -
  have "io_log (snd (main w a s)) = io_log s @ expected_accesses w a s"
    if "fst (main w a s) = Inr ()"
  proof -
    from that have "main w a s = (Inr (), snd (main w a s))" by (simp add: prod_eq_iff)
    then show ?thesis by (rule main_log_normal)
  qed
  then show ?thesis using main_log_any [of w a s] by simp
qed

theorem main_io_log_witness:
  "io_log (snd (main demo_world
                  \<lparr>program = Some ''demo'', human_readable = False, length_arg = 10\<rparr> start))
     = [Open ''/proc/meminfo'', Open ''/proc/meminfo'', Popen ''pidof demo'',
        Open ''/proc/101/smaps'', Open ''/proc/202/smaps'',
        Open ''/proc/101/smaps'', Open ''/proc/202/smaps'']
   \<and> expected_accesses demo_world
         \<lparr>program = Some ''demo'', human_readable = False, length_arg = 10\<rparr> start
     = [Open ''/proc/meminfo'', Open ''/proc/meminfo'', Popen ''pidof demo'',
        Open ''/proc/101/smaps'', Open ''/proc/202/smaps'',
        Open ''/proc/101/smaps'', Open ''/proc/202/smaps'']"
  using main_io_log [of demo_world
      "\<lparr>program = Some ''demo'', human_readable = False, length_arg = 10\<rparr>" start]
    demo_run
  by (simp add: start_def)

text \<open>
  Claim C9, as stated: every source is read exactly once. In the run for the program
  \<^verbatim>\<open>demo\<close> the memory-info source and the memory map of process 101 are both
  opened twice.
\<close>

theorem main_reads_once_counterexample:
  "fst (main demo_world \<lparr>program = Some ''demo'', human_readable = False, length_arg = 10\<rparr>
          start) = Inr ()
   \<and> count_list (io_log (snd (main demo_world
                    \<lparr>program = Some ''demo'', human_readable = False, length_arg = 10\<rparr> start)))
        (Open ''/proc/meminfo'') = 2
   \<and> count_list (io_log (snd (main demo_world
                    \<lparr>program = Some ''demo'', human_readable = False, length_arg = 10\<rparr> start)))
        (Open (smaps_path ''101'')) = 2"
  unfolding demo_run by (simp add: smaps_path_def)

end
